theory Spec2Isabelle
  imports Complex_Main
begin

section \<open>Ride registry: data model\<close>

text \<open>
  The in-memory ride store of the server (\<^verbatim>\<open>const rides = new Map()\<close>) and the
  handlers that mutate it. A ride is the object built by \<^verbatim>\<open>POST /rides\<close>; the
  TypeScript type gives its fields and the six status literals. Optional fields
  (\<^verbatim>\<open>driverId?\<close>, \<^verbatim>\<open>paymentIntentId?\<close>, ...) are options, \<^verbatim>\<open>None\<close> being
  \<^verbatim>\<open>undefined\<close>. JavaScript numbers are read as follows. A finite number is a real:
  the rounding and the overflow of doubles are not modelled. A pickup or dropoff
  coordinate is what \<^verbatim>\<open>z.number()\<close> lets through, a finite number or an infinity. A
  computed number that may be \<^verbatim>\<open>NaN\<close> (the distance, the quote) is an optional real,
  \<^verbatim>\<open>None\<close> being \<^verbatim>\<open>NaN\<close>; for the quote of a ride \<^verbatim>\<open>None\<close> is also \<^verbatim>\<open>undefined\<close>
  (both are falsy in the guard of the accept handler, the only place that reads it).
\<close>

datatype status = Requested | Matched | Accepted | InProgress | Completed | Cancelled

datatype rideType = Standard | Premium | XL

datatype number = Num real | PosInfinity | NegInfinity

record place =
  place_lat :: number
  place_lng :: number

record coord =
  lat :: real
  lng :: real

record ride =
  ride_id :: string
  pickup :: place
  dropoff :: place
  rideType :: rideType
  status :: status
  driverId :: "string option"
  quoteUsd :: "real option"
  paymentIntentId :: "string option"
  driverLat :: "real option"
  driverLng :: "real option"

type_synonym rides = "string \<rightharpoonup> ride"

text \<open>The error codes of the JSON error bodies (404, 409 and 400).\<close>

datatype error = NOT_FOUND | INVALID_STATE | VALIDATION_ERROR

text \<open>
  What a handler answers: an error body, the ride as JSON, or \<^verbatim>\<open>{ ok: true }\<close>.
\<close>

datatype response = Err error | RideJson ride | Ok

text \<open>
  The process environment the handlers read: \<^verbatim>\<open>process.env.STRIPE_SECRET_KEY\<close>,
  \<^verbatim>\<open>process.env.STRIPE_WEBHOOK_SECRET\<close>, and whether the persistent store client exists
  (\<^verbatim>\<open>isSupabaseReady()\<close>).
\<close>

record env =
  STRIPE_SECRET_KEY :: "string option"
  STRIPE_WEBHOOK_SECRET :: "string option"
  supabaseReady :: bool

text \<open>
  Everything a handler does besides answering and updating \<^verbatim>\<open>rides\<close> is listed, in the
  order the source issues it: calls to the payment processor, broadcasts to the ride's
  room, and the best-effort update of the persistent store.
\<close>

datatype payload = RideUpdated ride | DriverLocation coord

datatype db_update =
    InsertRide ride
  | UpdateAccept status "string option" "string option"
  | UpdateStatus status
  | UpdateDriverLocation real real

datatype effect =
    StripeCreate (amount: int) (currency: string) (capture_method: string)
      (metadata_rideId: string) (idempotencyKey: string)
  | StripeCapture string string
  | Broadcast string payload
  | Persist string db_update

section \<open>JavaScript helpers\<close>

text \<open>Truthiness of an optional string: \<^verbatim>\<open>undefined\<close> and \<^verbatim>\<open>""\<close> are falsy.\<close>

definition truthy_str :: "string option \<Rightarrow> bool" where
  "truthy_str s = (case s of None \<Rightarrow> False | Some v \<Rightarrow> v \<noteq> [])"

text \<open>\<^verbatim>\<open>s || d\<close> on an optional string.\<close>

definition or_default :: "string option \<Rightarrow> string \<Rightarrow> string" where
  "or_default s d = (case s of None \<Rightarrow> d | Some v \<Rightarrow> if v \<noteq> [] then v else d)"

text \<open>\<^verbatim>\<open>Math.round\<close>: the nearest integer, halves rounded up.\<close>

definition Math_round :: "real \<Rightarrow> int" where
  "Math_round x = \<lfloor>x + 1 / 2\<rfloor>"

text \<open>
  In-place mutation of the ride object found under \<^verbatim>\<open>req.params.id\<close>, followed by
  \<^verbatim>\<open>rides.set(ride.id, ride)\<close>: both keys hold the mutated object afterwards.
\<close>

definition store_ride :: "string \<Rightarrow> ride \<Rightarrow> rides \<Rightarrow> rides" where
  "store_ride key r m = (m(key \<mapsto> r))(ride_id r \<mapsto> r)"

definition persist :: "env \<Rightarrow> string \<Rightarrow> db_update \<Rightarrow> effect list" where
  "persist e rid u = (if supabaseReady e then [Persist rid u] else [])"

section \<open>Ride registry: the transition handlers\<close>

text \<open>
  \<^verbatim>\<open>toRad\<close> and \<^verbatim>\<open>haversineKm\<close>. With an infinite coordinate the difference of the
  two latitudes or longitudes is infinite or \<^verbatim>\<open>NaN\<close>, its sine is \<^verbatim>\<open>NaN\<close>, and
  \<^verbatim>\<open>NaN\<close> propagates through every later operation. \<^verbatim>\<open>Math.sqrt\<close> of a negative number
  and \<^verbatim>\<open>Math.asin\<close> of a number above 1 are \<^verbatim>\<open>NaN\<close>.
\<close>

definition toRad :: "real \<Rightarrow> real" where
  "toRad n = n * pi / 180"

definition haversineKm :: "place \<Rightarrow> place \<Rightarrow> real option" where
  "haversineKm a b =
     (case place_lat a of
        Num alat \<Rightarrow>
          (case place_lng a of
             Num alng \<Rightarrow>
               (case place_lat b of
                  Num blat \<Rightarrow>
                    (case place_lng b of
                       Num blng \<Rightarrow>
                         let R = 6371;
                             dLat = toRad (blat - alat);
                             dLng = toRad (blng - alng);
                             lat1 = toRad alat;
                             lat2 = toRad blat;
                             h = (sin (dLat / 2))\<^sup>2 + cos lat1 * cos lat2 * (sin (dLng / 2))\<^sup>2
                         in if 0 \<le> h \<and> sqrt h \<le> 1 then Some (2 * R * arcsin (sqrt h)) else None
                     | _ \<Rightarrow> None)
                | _ \<Rightarrow> None)
           | _ \<Rightarrow> None)
      | _ \<Rightarrow> None)"

text \<open>
  \<^verbatim>\<open>POST /rides\<close>. The body is given by what \<^verbatim>\<open>rideRequestSchema\<close> parses from it
  (\<^verbatim>\<open>None\<close>: the parse fails), and \<open>stamp\<close> is \<^verbatim>\<open>Date.now()\<close> in decimal. The new ride
  is stored under its id whether or not a ride is already stored under that id.
\<close>

definition create_ride ::
  "env \<Rightarrow> string \<Rightarrow> (place \<times> place \<times> rideType) option \<Rightarrow> rides
     \<Rightarrow> response \<times> rides \<times> effect list"
where
  "create_ride e stamp body m =
     (case body of
        None \<Rightarrow> (Err VALIDATION_ERROR, m, [])
      | Some (p, d, t) \<Rightarrow>
          let rideId = ''ride_'' @ stamp;
              km = haversineKm p d;
              perKm = (if t = Premium then 1.8 else if t = XL then 2.0 else 1.2);
              quoteUsd =
                (case km of
                   None \<Rightarrow> None
                 | Some k \<Rightarrow> Some (max 5 (real_of_int (Math_round ((2.5 + k * perKm) * 100)) / 100)));
              ride = \<lparr>ride_id = rideId, pickup = p, dropoff = d, rideType = t,
                      status = Requested, driverId = None, quoteUsd = quoteUsd,
                      paymentIntentId = None, driverLat = None, driverLng = None\<rparr>
          in (RideJson ride, m(rideId \<mapsto> ride),
              persist e rideId (InsertRide ride) @ [Broadcast rideId (RideUpdated ride)]))"




text \<open>
  \<^verbatim>\<open>acceptSchema = z.object({ driverId: z.string().min(1) })\<close>. The request body is
  given by its \<^verbatim>\<open>driverId\<close> field when that is a string (\<^verbatim>\<open>None\<close>: the body is not an
  object, or the field is absent or not a string).
\<close>

definition acceptSchema :: "string option \<Rightarrow> string option" where
  "acceptSchema body =
     (case body of None \<Rightarrow> None | Some d \<Rightarrow> if 1 \<le> length d then Some d else None)"

text \<open>
  The block of the accept handler that creates the payment intent (manual capture):
  \<^verbatim>\<open>if (process.env.STRIPE_SECRET_KEY && ride.quoteUsd && !ride.paymentIntentId)\<close>
  followed by \<^verbatim>\<open>try { ... ride.paymentIntentId = pi.id } catch {}\<close>. \<open>answer\<close> is what
  the payment processor does if \<^verbatim>\<open>paymentIntents.create\<close> is called: \<^verbatim>\<open>Some i\<close> when
  it returns an intent with id \<open>i\<close>, \<^verbatim>\<open>None\<close> when it throws. The result is the ride
  afterwards and the call issued, if any.
\<close>

definition create_payment_intent :: "env \<Rightarrow> string option \<Rightarrow> ride \<Rightarrow> ride \<times> effect list" where
  "create_payment_intent e answer ride =
     (case quoteUsd ride of
        None \<Rightarrow> (ride, [])
      | Some q \<Rightarrow>
          if truthy_str (STRIPE_SECRET_KEY e) \<and> q \<noteq> 0 \<and> \<not> truthy_str (paymentIntentId ride)
          then ((case answer of
                   Some i \<Rightarrow> ride\<lparr>paymentIntentId := Some i\<rparr>
                 | None \<Rightarrow> ride),
                [StripeCreate (max 1 (Math_round (q * 100))) ''usd'' ''manual''
                   (ride_id ride) (''ride_accept_'' @ ride_id ride)])
          else (ride, []))"

text \<open>
  \<^verbatim>\<open>POST /rides/:id/accept\<close>, after the authentication middleware has let the request
  through. The handler is taken as one step: it suspends only while the processor
  answers, after the status and the driver id have been assigned.
\<close>

definition accept ::
  "env \<Rightarrow> string option \<Rightarrow> string \<Rightarrow> string option \<Rightarrow> rides \<Rightarrow> response \<times> rides \<times> effect list"
where
  "accept e answer rid body m =
     (case m rid of
        None \<Rightarrow> (Err NOT_FOUND, m, [])
      | Some ride \<Rightarrow>
          if status ride \<noteq> Requested then (Err INVALID_STATE, m, [])
          else
            (case acceptSchema body of
               None \<Rightarrow> (Err VALIDATION_ERROR, m, [])
             | Some d \<Rightarrow>
                 (case create_payment_intent e answer
                         (ride\<lparr>status := Accepted, driverId := Some d\<rparr>) of
                    (r2, call) \<Rightarrow>
                      (RideJson r2, store_ride rid r2 m,
                       call @ [Broadcast (ride_id r2) (RideUpdated r2)]
                         @ persist e (ride_id r2)
                             (UpdateAccept (status r2) (driverId r2) (paymentIntentId r2))))))"

text \<open>\<^verbatim>\<open>POST /rides/:id/start\<close>.\<close>

definition start :: "env \<Rightarrow> string \<Rightarrow> rides \<Rightarrow> response \<times> rides \<times> effect list" where
  "start e rid m =
     (case m rid of
        None \<Rightarrow> (Err NOT_FOUND, m, [])
      | Some ride \<Rightarrow>
          if status ride \<noteq> Accepted then (Err INVALID_STATE, m, [])
          else
            let r1 = ride\<lparr>status := InProgress\<rparr>
            in (RideJson r1, store_ride rid r1 m,
                [Broadcast (ride_id r1) (RideUpdated r1)]
                  @ persist e (ride_id r1) (UpdateStatus (status r1))))"

text \<open>
  \<^verbatim>\<open>POST /rides/:id/complete\<close>. The capture is attempted after the ride is stored; its
  outcome is discarded by the handler (\<^verbatim>\<open>catch {}\<close>), so it is not a parameter.
\<close>

definition complete_ride :: "env \<Rightarrow> string \<Rightarrow> rides \<Rightarrow> response \<times> rides \<times> effect list" where
  "complete_ride e rid m =
     (case m rid of
        None \<Rightarrow> (Err NOT_FOUND, m, [])
      | Some ride \<Rightarrow>
          if status ride \<noteq> InProgress \<and> status ride \<noteq> Accepted then (Err INVALID_STATE, m, [])
          else
            let r1 = ride\<lparr>status := Completed\<rparr>
            in (RideJson r1, store_ride rid r1 m,
                [Broadcast (ride_id r1) (RideUpdated r1)]
                  @ persist e (ride_id r1) (UpdateStatus (status r1))
                  @ (case paymentIntentId r1 of
                       None \<Rightarrow> []
                     | Some p \<Rightarrow>
                         if truthy_str (STRIPE_SECRET_KEY e) \<and> p \<noteq> []
                         then [StripeCapture p (''ride_complete_'' @ ride_id r1)]
                         else [])))"

text \<open>\<^verbatim>\<open>POST /rides/:id/cancel\<close>.\<close>

definition cancel :: "env \<Rightarrow> string \<Rightarrow> rides \<Rightarrow> response \<times> rides \<times> effect list" where
  "cancel e rid m =
     (case m rid of
        None \<Rightarrow> (Err NOT_FOUND, m, [])
      | Some ride \<Rightarrow>
          if status ride \<noteq> Requested then (Err INVALID_STATE, m, [])
          else
            let r1 = ride\<lparr>status := Cancelled\<rparr>
            in (RideJson r1, store_ride rid r1 m,
                [Broadcast (ride_id r1) (RideUpdated r1)]
                  @ persist e (ride_id r1) (UpdateStatus (status r1))))"

text \<open>
  \<^verbatim>\<open>driverLocSchema\<close>: both fields numbers, \<^verbatim>\<open>lat\<close> within \<open>[-90, 90]\<close> and \<^verbatim>\<open>lng\<close>
  within \<open>[-180, 180]\<close>. The body is given by its two fields when they are numbers
  (\<^verbatim>\<open>None\<close>: absent, not a number, or \<^verbatim>\<open>NaN\<close>, which \<^verbatim>\<open>z.number()\<close> refuses).
\<close>

definition driverLocSchema :: "real option \<Rightarrow> real option \<Rightarrow> coord option" where
  "driverLocSchema blat blng =
     (case blat of
        None \<Rightarrow> None
      | Some x \<Rightarrow>
          (case blng of
             None \<Rightarrow> None
           | Some y \<Rightarrow>
               if - 90 \<le> x \<and> x \<le> 90 \<and> - 180 \<le> y \<and> y \<le> 180
               then Some \<lparr>lat = x, lng = y\<rparr> else None))"

text \<open>\<^verbatim>\<open>POST /rides/:id/driver_location\<close>.\<close>

definition driver_location ::
  "env \<Rightarrow> string \<Rightarrow> real option \<Rightarrow> real option \<Rightarrow> rides \<Rightarrow> response \<times> rides \<times> effect list"
where
  "driver_location e rid blat blng m =
     (case m rid of
        None \<Rightarrow> (Err NOT_FOUND, m, [])
      | Some ride \<Rightarrow>
          (case driverLocSchema blat blng of
             None \<Rightarrow> (Err VALIDATION_ERROR, m, [])
           | Some c \<Rightarrow>
               let r1 = ride\<lparr>driverLat := Some (lat c), driverLng := Some (lng c)\<rparr>
               in (Ok, store_ride rid r1 m,
                   [Broadcast (ride_id r1) (DriverLocation c)]
                     @ persist e (ride_id r1) (UpdateDriverLocation (lat c) (lng c)))))"

section \<open>Sequences of requests\<close>

text \<open>
  The requests that mutate an existing ride, each with the ride id of its path and what
  its body (and, for accept, the payment processor) supplies; \<open>serve\<close> dispatches one
  request to its handler and \<open>run\<close> serves a list of them in order, collecting the
  effects.
\<close>

datatype request =
    AcceptReq string "string option" "string option"
  | StartReq string
  | CompleteReq string
  | CancelReq string
  | DriverLocationReq string "real option" "real option"

fun serve :: "env \<Rightarrow> request \<Rightarrow> rides \<Rightarrow> response \<times> rides \<times> effect list" where
  "serve e (AcceptReq rid body answer) m = accept e answer rid body m"
| "serve e (StartReq rid) m = start e rid m"
| "serve e (CompleteReq rid) m = complete_ride e rid m"
| "serve e (CancelReq rid) m = cancel e rid m"
| "serve e (DriverLocationReq rid blat blng) m = driver_location e rid blat blng m"

fun run :: "env \<Rightarrow> request list \<Rightarrow> rides \<Rightarrow> rides \<times> effect list" where
  "run e [] m = (m, [])"
| "run e (q # qs) m =
     (case serve e q m of
        (resp, m1, fx) \<Rightarrow> (case run e qs m1 of (m2, fx2) \<Rightarrow> (m2, fx @ fx2)))"

text \<open>
  Two invariants of the store: every ride is stored under its own id, and a ride in
  status \<^verbatim>\<open>requested\<close> has no payment intent. Both hold of the empty store and are kept
  by every handler (\<open>create_ride_invariants\<close>, \<open>serve_wf\<close>,
  \<open>serve_unpaid_while_requested\<close>).
\<close>

definition wf_rides :: "rides \<Rightarrow> bool" where
  "wf_rides m = (\<forall>k r. m k = Some r \<longrightarrow> ride_id r = k)"

definition unpaid_while_requested :: "rides \<Rightarrow> bool" where
  "unpaid_while_requested m =
     (\<forall>k r. m k = Some r \<longrightarrow> status r = Requested \<longrightarrow> paymentIntentId r = None)"

text \<open>
  The edges of the lifecycle as the specification lists them, and a measure of progress
  along it.
\<close>

definition edges :: "(status \<times> status) set" where
  "edges = {(Requested, Accepted), (Accepted, InProgress), (InProgress, Completed),
            (Accepted, Completed), (Requested, Cancelled)}"

fun progress :: "status \<Rightarrow> nat" where
  "progress Requested = 0"
| "progress Matched = 1"
| "progress Accepted = 2"
| "progress InProgress = 3"
| "progress Completed = 4"
| "progress Cancelled = 5"

text \<open>The authorizations requested from the processor for one ride, among some effects.\<close>

fun is_create :: "string \<Rightarrow> effect \<Rightarrow> bool" where
  "is_create rid (StripeCreate a c cm r k) = (r = rid)"
| "is_create rid _ = False"

definition creates :: "string \<Rightarrow> effect list \<Rightarrow> nat" where
  "creates rid fx = length (filter (is_create rid) fx)"

section \<open>Webhook deduplication\<close>

text \<open>
  A verified event of the payment processor, reduced to the two fields the handler reads.
\<close>

record stripe_event =
  event_id :: string
  event_type :: string

text \<open>
  Modelled from the spec: the persistent store is not part of the sources. Its table
  \<^verbatim>\<open>stripe_events\<close> is taken as the set of the event ids recorded in it (``existence
  of a record for an id is the sole dedup signal''). \<open>processedStripeEvents\<close> is the
  in-memory \<^verbatim>\<open>Set\<close> of the source, in insertion order.
\<close>

record dedup =
  stripe_events :: "string set"
  processedStripeEvents :: "string list"

text \<open>
  How the store behaves during one delivery. Its client reports a failure either by
  throwing or by an \<^verbatim>\<open>error\<close> field in its answer (the handlers that read rides test
  it: \<^verbatim>\<open>if (error) throw error\<close>). A select that fails either way yields no row, and
  the lookup falls through to the in-memory set. An insert records the id, or answers
  with an error that \<^verbatim>\<open>markEventProcessed\<close> does not read, or throws.
\<close>

datatype insert_result = Inserted | Insert_error | Insert_throws

record faults =
  select_fails :: bool
  insert_result :: insert_result

text \<open>The lookups and marks one delivery issues, in order.\<close>

datatype dedup_action = StoreSelect string | MemoryHas string | StoreInsert string | MemoryAdd string

fun is_mark :: "dedup_action \<Rightarrow> bool" where
  "is_mark (StoreInsert i) = True"
| "is_mark (MemoryAdd i) = True"
| "is_mark _ = False"

text \<open>\<^verbatim>\<open>Set.prototype.add\<close>: an element already present keeps its place.\<close>

definition set_add :: "'a \<Rightarrow> 'a list \<Rightarrow> 'a list" where
  "set_add x xs = (if x \<in> set xs then xs else xs @ [x])"

text \<open>
  \<^verbatim>\<open>isEventProcessed\<close>: the store first when there is one (\<^verbatim>\<open>data?.id\<close> must be
  truthy), the in-memory set otherwise and whenever the store lookup fails or finds nothing.
\<close>

definition isEventProcessed :: "env \<Rightarrow> faults \<Rightarrow> string \<Rightarrow> dedup \<Rightarrow> bool \<times> dedup_action list" where
  "isEventProcessed e f i st =
     (if supabaseReady e
      then (if \<not> select_fails f \<and> i \<in> stripe_events st \<and> i \<noteq> []
            then (True, [StoreSelect i])
            else (i \<in> set (processedStripeEvents st), [StoreSelect i, MemoryHas i]))
      else (i \<in> set (processedStripeEvents st), [MemoryHas i]))"

text \<open>
  The tail of \<^verbatim>\<open>markEventProcessed\<close>: beyond 1000 elements the oldest one is deleted,
  unless it is falsy (\<^verbatim>\<open>if (first)\<close>).
\<close>

definition evict :: "string list \<Rightarrow> string list" where
  "evict xs =
     (if 1000 < length xs
      then (case xs of
              [] \<Rightarrow> xs
            | first # rest \<Rightarrow> if first \<noteq> [] then removeAll first xs else xs)
      else xs)"

definition markEventProcessed ::
  "env \<Rightarrow> faults \<Rightarrow> string \<Rightarrow> string \<Rightarrow> dedup \<Rightarrow> dedup \<times> dedup_action list"
where
  "markEventProcessed e f i ty st =
     (if supabaseReady e \<and> insert_result f = Inserted
      then (st\<lparr>stripe_events := insert i (stripe_events st)\<rparr>, [StoreInsert i])
      else if supabaseReady e \<and> insert_result f = Insert_error
      then (st, [StoreInsert i])
      else (st\<lparr>processedStripeEvents := evict (set_add i (processedStripeEvents st))\<rparr>,
            (if supabaseReady e then [StoreInsert i] else []) @ [MemoryAdd i]))"

datatype webhook_response = BadRequest string | Received string | Duplicate

text \<open>
  \<^verbatim>\<open>POST /webhooks/stripe\<close>. \<open>constructEvent\<close> is the processor library's signature
  check, a parameter: from the raw body, the signature header and the secret it gives
  the event, or \<^verbatim>\<open>None\<close> when it throws. \<open>sig\<close> is the \<^verbatim>\<open>stripe-signature\<close> header.
\<close>

definition webhook ::
  "(string \<Rightarrow> string \<Rightarrow> string \<Rightarrow> stripe_event option) \<Rightarrow> env \<Rightarrow> faults
     \<Rightarrow> string option \<Rightarrow> string \<Rightarrow> dedup \<Rightarrow> webhook_response \<times> dedup \<times> dedup_action list"
where
  "webhook constructEvent e f sig body st =
     (case sig of
        None \<Rightarrow> (BadRequest ''Missing signature'', st, [])
      | Some s \<Rightarrow>
          if s = [] then (BadRequest ''Missing signature'', st, [])
          else
            (case constructEvent body s (or_default (STRIPE_WEBHOOK_SECRET e) ''whsec_'') of
               None \<Rightarrow> (BadRequest ''Webhook Error'', st, [])
             | Some event \<Rightarrow>
                 (case isEventProcessed e f (event_id event) st of
                    (True, log1) \<Rightarrow> (Duplicate, st, log1)
                  | (False, log1) \<Rightarrow>
                      (case markEventProcessed e f (event_id event) (event_type event) st of
                         (st1, log2) \<Rightarrow> (Received (event_type event), st1, log1 @ log2)))))"

text \<open>
  The in-memory set stays within its bound, or is led by a falsy id that is never evicted.
\<close>

definition bounded_set :: "string list \<Rightarrow> bool" where
  "bounded_set xs = (length xs \<le> 1000 \<or> (\<exists>rest. xs = [] # rest))"

definition mem_bounded :: "dedup \<Rightarrow> bool" where
  "mem_bounded st = bounded_set (processedStripeEvents st)"

section \<open>Realtime broadcaster\<close>

text \<open>
  Connections are numbered. A socket has the list of what was sent on it and a flag
  saying whether \<^verbatim>\<open>send\<close> throws on it. \<open>rideRooms\<close> is the map of the source, each
  room a \<^verbatim>\<open>Set\<close> in insertion order; \<open>closeHandlers\<close> lists, per connection, the ride
  ids of the close handlers \<^verbatim>\<open>addSocketToRide\<close> registered on it.
\<close>

type_synonym conn = nat

record wsock =
  send_throws :: bool
  ws_sent :: "payload list"

record realtime =
  rideRooms :: "string \<rightharpoonup> conn list"
  closeHandlers :: "conn \<Rightarrow> string list"
  sockets :: "conn \<Rightarrow> wsock"

definition send :: "conn \<Rightarrow> payload \<Rightarrow> (conn \<Rightarrow> wsock) \<Rightarrow> (conn \<Rightarrow> wsock) option" where
  "send c d s =
     (if send_throws (s c) then None
      else Some (s(c := (s c)\<lparr>ws_sent := ws_sent (s c) @ [d]\<rparr>)))"

text \<open>The loop of \<^verbatim>\<open>broadcastToRide\<close>: \<^verbatim>\<open>try { client.send(data) } catch {}\<close>.\<close>

fun send_each :: "conn list \<Rightarrow> payload \<Rightarrow> (conn \<Rightarrow> wsock) \<Rightarrow> (conn \<Rightarrow> wsock)" where
  "send_each [] d s = s"
| "send_each (client # room) d s =
     send_each room d (case send client d s of None \<Rightarrow> s | Some s1 \<Rightarrow> s1)"

definition broadcastToRide :: "string \<Rightarrow> payload \<Rightarrow> realtime \<Rightarrow> realtime" where
  "broadcastToRide rideId p st =
     (case rideRooms st rideId of
        None \<Rightarrow> st
      | Some room \<Rightarrow> st\<lparr>sockets := send_each room p (sockets st)\<rparr>)"

definition addSocketToRide :: "string \<Rightarrow> conn \<Rightarrow> realtime \<Rightarrow> realtime" where
  "addSocketToRide rideId ws st =
     st\<lparr>rideRooms :=
          (rideRooms st)(rideId \<mapsto>
             set_add ws (case rideRooms st rideId of None \<Rightarrow> [] | Some room \<Rightarrow> room)),
        closeHandlers := (closeHandlers st)(ws := closeHandlers st ws @ [rideId])\<rparr>"

text \<open>One registered handler: \<^verbatim>\<open>rideRooms.get(rideId)?.delete(ws)\<close>.\<close>

definition close_handler :: "conn \<Rightarrow> string \<Rightarrow> (string \<rightharpoonup> conn list) \<Rightarrow> (string \<rightharpoonup> conn list)" where
  "close_handler ws rideId rooms =
     (case rooms rideId of
        None \<Rightarrow> rooms
      | Some room \<Rightarrow> rooms(rideId \<mapsto> removeAll ws room))"

text \<open>The \<^verbatim>\<open>close\<close> event of a connection runs its handlers in registration order.\<close>

definition close :: "conn \<Rightarrow> realtime \<Rightarrow> realtime" where
  "close ws st = st\<lparr>rideRooms := fold (close_handler ws) (closeHandlers st ws) (rideRooms st)\<rparr>"

text \<open>
  Rooms hold each connection once, and every member of a room has a close handler for it.
\<close>

definition rooms_ok :: "realtime \<Rightarrow> bool" where
  "rooms_ok st =
     (\<forall>r room. rideRooms st r = Some room \<longrightarrow>
        distinct room \<and> (\<forall>c. c \<in> set room \<longrightarrow> r \<in> set (closeHandlers st c)))"

definition no_rooms :: realtime where
  "no_rooms = \<lparr>rideRooms = Map.empty, closeHandlers = (\<lambda>c. []),
               sockets = (\<lambda>c. \<lparr>send_throws = False, ws_sent = []\<rparr>)\<rparr>"

section \<open>Vocabulary of the properties\<close>

text \<open>The terminal statuses of the lifecycle.\<close>

definition terminal :: "status \<Rightarrow> bool" where
  "terminal s = (s = Completed \<or> s = Cancelled)"

text \<open>The idempotency keys passed to the payment processor, among some effects.\<close>

fun keys_of :: "effect \<Rightarrow> string list" where
  "keys_of (StripeCreate a c cm r k) = [k]"
| "keys_of (StripeCapture p k) = [k]"
| "keys_of _ = []"

definition idempotency_keys :: "effect list \<Rightarrow> string list" where
  "idempotency_keys fx = concat (map keys_of fx)"

text \<open>An event id is recorded when the store or the in-memory set holds it.\<close>

definition recorded :: "string \<Rightarrow> dedup \<Rightarrow> bool" where
  "recorded i st = (i \<in> stripe_events st \<or> i \<in> set (processedStripeEvents st))"

text \<open>The ride a request is addressed to.\<close>

fun target :: "request \<Rightarrow> string" where
  "target (AcceptReq rid body answer) = rid"
| "target (StartReq rid) = rid"
| "target (CompleteReq rid) = rid"
| "target (CancelReq rid) = rid"
| "target (DriverLocationReq rid blat blng) = rid"

text \<open>
  What one request may do to a ride: the id stays, the status stays or moves along an
  edge, and the payment intent stays unless the ride goes from \<^verbatim>\<open>requested\<close> to
  \<^verbatim>\<open>accepted\<close> without a truthy payment intent.
\<close>

definition ride_change :: "ride \<Rightarrow> ride \<Rightarrow> bool" where
  "ride_change r r1 =
     (ride_id r1 = ride_id r
      \<and> (status r1 = status r \<or> (status r, status r1) \<in> edges)
      \<and> (paymentIntentId r1 = paymentIntentId r
           \<or> (status r = Requested \<and> status r1 = Accepted \<and> \<not> truthy_str (paymentIntentId r))))"

text \<open>
  What one request addressed to \<open>t\<close> does to the store and which authorizations it
  requests: nothing, or a change of the ride stored under \<open>t\<close> with at most one
  authorization, requested for that ride as it becomes accepted.
\<close>

definition step_shape :: "string \<Rightarrow> rides \<Rightarrow> rides \<Rightarrow> effect list \<Rightarrow> bool" where
  "step_shape t m m1 fx =
     ((m1 = m \<and> (\<forall>j. creates j fx = 0))
      \<or> (\<exists>r r1. m t = Some r \<and> m1 = m(t \<mapsto> r1) \<and> ride_change r r1
            \<and> (\<forall>j. j \<noteq> t \<longrightarrow> creates j fx = 0)
            \<and> creates t fx \<le> 1
            \<and> (creates t fx = 1 \<longrightarrow> status r = Requested \<and> status r1 = Accepted)))"




text \<open>A coordinate that is not an infinity.\<close>

fun finite_number :: "number \<Rightarrow> bool" where
  "finite_number (Num x) = True"
| "finite_number _ = False"

text \<open>
  The haversine function and the great-circle distance in kilometres between two points
  given in radians, on a sphere of radius 6371, as the specification names them.
\<close>

definition hav :: "real \<Rightarrow> real" where
  "hav x = (1 - cos x) / 2"

definition great_circle_km :: "real \<Rightarrow> real \<Rightarrow> real \<Rightarrow> real \<Rightarrow> real" where
  "great_circle_km lat1 lng1 lat2 lng2 =
     2 * 6371 * arcsin (sqrt (hav (lat2 - lat1) + cos lat1 * cos lat2 * hav (lng2 - lng1)))"





text \<open>
  A delivery is the store's behaviour while it is handled, its signature header and its
  body; \<open>deliver_all\<close> handles a list of deliveries in order.
\<close>

type_synonym delivery = "faults \<times> string option \<times> string"

fun deliver_all ::
  "(string \<Rightarrow> string \<Rightarrow> string \<Rightarrow> stripe_event option) \<Rightarrow> env \<Rightarrow> delivery list \<Rightarrow> dedup \<Rightarrow> dedup"
where
  "deliver_all constructEvent e [] st = st"
| "deliver_all constructEvent e ((f, sig, body) # ds) st =
     deliver_all constructEvent e ds (fst (snd (webhook constructEvent e f sig body st)))"

section \<open>Concrete inputs\<close>

text \<open>A configured environment, a requested ride and two ride stores used in examples.\<close>

definition env0 :: env where
  "env0 = \<lparr>STRIPE_SECRET_KEY = Some ''sk_test_1'', STRIPE_WEBHOOK_SECRET = Some ''whsec_1'',
            supabaseReady = False\<rparr>"

definition ride0 :: ride where
  "ride0 = \<lparr>ride_id = ''ride_1'', pickup = \<lparr>place_lat = Num 0, place_lng = Num 0\<rparr>,
             dropoff = \<lparr>place_lat = Num 0, place_lng = Num 1\<rparr>,
             rideType = Standard, status = Requested, driverId = None, quoteUsd = Some 12,
             paymentIntentId = None, driverLat = None, driverLng = None\<rparr>"

definition rides0 :: rides where
  "rides0 = [''ride_1'' \<mapsto> ride0]"

definition rides_done :: rides where
  "rides_done = [''ride_1'' \<mapsto> ride0\<lparr>status := Completed\<rparr>]"

text \<open>A ride in progress that carries a payment intent.\<close>

definition ride_paid :: ride where
  "ride_paid = ride0\<lparr>status := InProgress, driverId := Some ''drv_7'',
                      paymentIntentId := Some ''pi_1''\<rparr>"

definition rides_paid :: rides where
  "rides_paid = [''ride_1'' \<mapsto> ride_paid]"

text \<open>
  A stand-in for the signature check: the header must be \<^verbatim>\<open>sig:\<close> followed by the
  secret, and the verified event takes the body as its id. Then an environment with the
  persistent store, the two fault patterns, and the empty deduplication state.
\<close>

definition verify0 :: "string \<Rightarrow> string \<Rightarrow> string \<Rightarrow> stripe_event option" where
  "verify0 body s k =
     (if s = ''sig:'' @ k
      then Some \<lparr>event_id = body, event_type = ''payment_intent.succeeded''\<rparr> else None)"

definition sig1 :: string where
  "sig1 = ''sig:whsec_1''"

definition env_store :: env where
  "env_store = env0\<lparr>supabaseReady := True\<rparr>"

definition no_faults :: faults where
  "no_faults = \<lparr>select_fails = False, insert_result = Inserted\<rparr>"

definition store_down :: faults where
  "store_down = \<lparr>select_fails = True, insert_result = Insert_throws\<rparr>"

definition dedup0 :: dedup where
  "dedup0 = \<lparr>stripe_events = {}, processedStripeEvents = []\<rparr>"

text \<open>The deduplication state after a first delivery of \<^verbatim>\<open>evt_1\<close> with the store up.\<close>

definition after_first :: dedup where
  "after_first = fst (snd (webhook verify0 env_store no_faults (Some sig1) ''evt_1'' dedup0))"

text \<open>
  Three connections: 1 and 2 in the room of \<^verbatim>\<open>ride_1\<close>, 3 in the room of
  \<^verbatim>\<open>ride_2\<close>; \<^verbatim>\<open>send\<close> throws on connection 1.
\<close>

definition payload0 :: payload where
  "payload0 = DriverLocation \<lparr>lat = 1, lng = 2\<rparr>"

definition rooms0 :: realtime where
  "rooms0 =
     addSocketToRide ''ride_2'' 3
       (addSocketToRide ''ride_1'' 2
          (addSocketToRide ''ride_1'' 1
             (no_rooms\<lparr>sockets := (sockets no_rooms)(1 := \<lparr>send_throws = True, ws_sent = []\<rparr>)\<rparr>)))"







text \<open>
  A stand-in for the signature check whose header carries a time stamp, so that a
  redelivery is signed anew: the event id is the first five characters of the body. Then
  two deliveries of the event \<^verbatim>\<open>evt_1\<close> with different bodies, and a delivery of
  another event.
\<close>

definition verify_stamped :: "string \<Rightarrow> string \<Rightarrow> string \<Rightarrow> stripe_event option" where
  "verify_stamped body s k =
     (if s = ''t=1,sig:'' @ k \<or> s = ''t=2,sig:'' @ k
      then Some \<lparr>event_id = take 5 body, event_type = ''payment_intent.succeeded''\<rparr> else None)"

definition first_try :: string where
  "first_try = ''evt_1 first try''"

definition retried :: string where
  "retried = ''evt_1 retried''"

definition event1 :: stripe_event where
  "event1 = \<lparr>event_id = ''evt_1'', event_type = ''payment_intent.succeeded''\<rparr>"

definition other_delivery :: delivery where
  "other_delivery = (no_faults, Some ''t=1,sig:whsec_1'', ''evt_2 other'')"

section \<open>Properties of the accept handler\<close>

lemma acceptSchema_eq:
  "acceptSchema body = (case body of None \<Rightarrow> None | Some d \<Rightarrow> if d = [] then None else Some d)"
  by (cases body) (auto simp: acceptSchema_def Suc_le_eq)

lemma rides0_lookup: "rides0 ''ride_1'' = Some ride0"
  by (simp add: rides0_def)

lemma rides_done_lookup: "rides_done ''ride_1'' = Some (ride0\<lparr>status := Completed\<rparr>)"
  by (simp add: rides_done_def)

text \<open>
  C2. For a known ride, accept answers with the ride exactly when the ride is in status
  \<^verbatim>\<open>requested\<close> and the body carries a non-empty driver id. On a ride in any other
  status it answers \<^verbatim>\<open>INVALID_STATE\<close>, whatever the body, and the ride store is left as
  it was (so the record, its status and its driver id are unchanged) and nothing is
  emitted. When it succeeds, the ride it answers with is the ride now stored under the
  id: it is in status \<^verbatim>\<open>accepted\<close>, bound to the driver of the body, and otherwise the
  ride as it was, but for the payment intent, which is the old one or the one the
  processor answered.
\<close>

theorem accept_succeeds_iff_requested:
  assumes "m rid = Some r"
  shows "((\<exists>r'. fst (accept e answer rid body m) = RideJson r') \<longleftrightarrow>
            status r = Requested \<and> (\<exists>d. body = Some d \<and> d \<noteq> []))
       \<and> (status r \<noteq> Requested \<longrightarrow>
            accept e answer rid body m = (Err INVALID_STATE, m, []))
       \<and> (\<forall>d. status r = Requested \<and> body = Some d \<and> d \<noteq> [] \<longrightarrow>
            (\<exists>r'. fst (accept e answer rid body m) = RideJson r'
                \<and> fst (snd (accept e answer rid body m)) = store_ride rid r' m
                \<and> fst (snd (accept e answer rid body m)) rid = Some r'
                \<and> status r' = Accepted \<and> driverId r' = Some d
                \<and> (paymentIntentId r' = paymentIntentId r \<or> paymentIntentId r' = answer)
                \<and> r'\<lparr>paymentIntentId := paymentIntentId r\<rparr>
                    = r\<lparr>status := Accepted, driverId := Some d\<rparr>))"
proof -
  have iff: "(\<exists>r'. fst (accept e answer rid body m) = RideJson r') \<longleftrightarrow>
            status r = Requested \<and> (\<exists>d. body = Some d \<and> d \<noteq> [])"
    using assms
    by (auto simp: accept_def acceptSchema_eq split: option.splits if_splits prod.splits)
  have bad: "status r \<noteq> Requested \<longrightarrow> accept e answer rid body m = (Err INVALID_STATE, m, [])"
    using assms by (simp add: accept_def)
  have good: "\<exists>r'. fst (accept e answer rid body m) = RideJson r'
                \<and> fst (snd (accept e answer rid body m)) = store_ride rid r' m
                \<and> fst (snd (accept e answer rid body m)) rid = Some r'
                \<and> status r' = Accepted \<and> driverId r' = Some d
                \<and> (paymentIntentId r' = paymentIntentId r \<or> paymentIntentId r' = answer)
                \<and> r'\<lparr>paymentIntentId := paymentIntentId r\<rparr>
                    = r\<lparr>status := Accepted, driverId := Some d\<rparr>"
    if "status r = Requested" and "body = Some d" and "d \<noteq> []" for d
  proof -
    let ?r1 = "r\<lparr>status := Accepted, driverId := Some d\<rparr>"
    let ?r2 = "fst (create_payment_intent e answer ?r1)"
    have d: "acceptSchema body = Some d" using that by (simp add: acceptSchema_eq)
    have acc: "fst (accept e answer rid body m) = RideJson ?r2"
      "fst (snd (accept e answer rid body m)) = store_ride rid ?r2 m"
      using assms that(1) d by (simp_all add: accept_def case_prod_beta)
    have r2: "?r2 = ?r1 \<or> ?r2 = ?r1\<lparr>paymentIntentId := answer\<rparr>"
      by (auto simp: create_payment_intent_def split: option.splits)
    have look: "store_ride rid ?r2 m rid = Some ?r2" by (simp add: store_ride_def)
    from r2 show ?thesis
    proof
      assume "?r2 = ?r1"
      with acc look show ?thesis by simp
    next
      assume "?r2 = ?r1\<lparr>paymentIntentId := answer\<rparr>"
      with acc look show ?thesis by simp
    qed
  qed
  from iff bad good show ?thesis by blast
qed

theorem accept_succeeds_iff_requested_witness:
  "rides0 ''ride_1'' = Some ride0 \<and> status ride0 = Requested
   \<and> (\<exists>r'. fst (accept env0 (Some ''pi_1'') ''ride_1'' (Some ''drv_7'') rides0) = RideJson r'
          \<and> fst (snd (accept env0 (Some ''pi_1'') ''ride_1'' (Some ''drv_7'') rides0)) ''ride_1''
              = Some r'
          \<and> status r' = Accepted \<and> driverId r' = Some ''drv_7'')
   \<and> accept env0 None ''ride_1'' (Some ''drv_7'') rides_done = (Err INVALID_STATE, rides_done, [])"
proof -
  have c: "status ride0 = Requested" by (simp add: ride0_def)
  from accept_succeeds_iff_requested
         [where m = rides0 and rid = "''ride_1''" and e = env0 and answer = "Some ''pi_1''"
            and body = "Some ''drv_7''", OF rides0_lookup] c
  have ok: "\<exists>r'. fst (accept env0 (Some ''pi_1'') ''ride_1'' (Some ''drv_7'') rides0) = RideJson r'
          \<and> fst (snd (accept env0 (Some ''pi_1'') ''ride_1'' (Some ''drv_7'') rides0)) ''ride_1''
              = Some r'
          \<and> status r' = Accepted \<and> driverId r' = Some ''drv_7''"
    by auto
  from accept_succeeds_iff_requested
         [where m = rides_done and rid = "''ride_1''" and e = env0 and answer = None
            and body = "Some ''drv_7''", OF rides_done_lookup]
  have no: "accept env0 None ''ride_1'' (Some ''drv_7'') rides_done
              = (Err INVALID_STATE, rides_done, [])"
    by simp
  from ok no rides0_lookup c show ?thesis by blast
qed

text \<open>
  C10. The checks of accept are ordered: an unknown ride id gives \<^verbatim>\<open>NOT_FOUND\<close>
  whatever the body; a known ride that is not in status \<^verbatim>\<open>requested\<close> gives
  \<^verbatim>\<open>INVALID_STATE\<close> whatever the body; and \<^verbatim>\<open>VALIDATION_ERROR\<close> is the answer exactly
  when the ride is known, is in status \<^verbatim>\<open>requested\<close>, and the body has no non-empty
  driver id. In each of the first two cases nothing is changed or emitted.
\<close>

theorem accept_error_order:
  "(m rid = None \<longrightarrow> accept e answer rid body m = (Err NOT_FOUND, m, []))
 \<and> (\<forall>r. m rid = Some r \<and> status r \<noteq> Requested \<longrightarrow>
        accept e answer rid body m = (Err INVALID_STATE, m, []))
 \<and> (fst (accept e answer rid body m) = Err VALIDATION_ERROR \<longleftrightarrow>
        (\<exists>r. m rid = Some r \<and> status r = Requested) \<and> \<not> (\<exists>d. body = Some d \<and> d \<noteq> []))"
  by (auto simp: accept_def acceptSchema_eq split: option.splits if_splits prod.splits)

theorem accept_error_order_witness:
  "accept env0 None ''ride_9'' None rides0 = (Err NOT_FOUND, rides0, [])
 \<and> accept env0 None ''ride_1'' None rides_done = (Err INVALID_STATE, rides_done, [])
 \<and> fst (accept env0 None ''ride_1'' (Some []) rides0) = Err VALIDATION_ERROR"
proof -
  have a: "rides0 ''ride_9'' = None" by (simp add: rides0_def)
  have c: "status ride0 = Requested" by (simp add: ride0_def)
  from accept_error_order [of rides0 "''ride_9''" env0 None None]
       accept_error_order [of rides_done "''ride_1''" env0 None None]
       accept_error_order [of rides0 "''ride_1''" env0 None "Some []"]
       a c rides0_lookup rides_done_lookup
  show ?thesis by simp
qed

section \<open>Driver location\<close>

text \<open>
  C7, as the claim states it, fails: the handler never reads the ride's status. On a
  completed ride, a valid coordinate is accepted.
\<close>

theorem driver_location_terminal_counterexample:
  "rides_done ''ride_1'' = Some (ride0\<lparr>status := Completed\<rparr>)
   \<and> terminal (status (ride0\<lparr>status := Completed\<rparr>))
   \<and> fst (driver_location env0 ''ride_1'' (Some 10) (Some 20) rides_done) = Ok"
  by (simp add: rides_done_def terminal_def driver_location_def driverLocSchema_def)

text \<open>
  C7, amended. For a known ride, whatever its status, recording the driver location
  succeeds exactly when the body has a latitude in \<open>[-90, 90]\<close> and a longitude in
  \<open>[-180, 180]\<close>; otherwise it answers \<^verbatim>\<open>VALIDATION_ERROR\<close> and changes nothing. On
  success the ride's live coordinate is overwritten and nothing else of the ride changes.
  Latitude -90 with longitude 180 is accepted; latitude 91 and longitude -181 are refused.
\<close>

theorem driver_location_succeeds_iff_in_range:
  assumes "m rid = Some r"
  shows "(fst (driver_location e rid blat blng m) = Ok \<longleftrightarrow>
            (\<exists>x y. blat = Some x \<and> blng = Some y
               \<and> - 90 \<le> x \<and> x \<le> 90 \<and> - 180 \<le> y \<and> y \<le> 180))
       \<and> (fst (driver_location e rid blat blng m) \<noteq> Ok \<longrightarrow>
            driver_location e rid blat blng m = (Err VALIDATION_ERROR, m, []))
       \<and> (\<forall>x y. blat = Some x \<and> blng = Some y
               \<and> - 90 \<le> x \<and> x \<le> 90 \<and> - 180 \<le> y \<and> y \<le> 180 \<longrightarrow>
            fst (snd (driver_location e rid blat blng m)) rid
              = Some (r\<lparr>driverLat := Some x, driverLng := Some y\<rparr>))
       \<and> fst (driver_location e rid (Some (- 90)) (Some 180) m) = Ok
       \<and> fst (driver_location e rid (Some 91) blng m) = Err VALIDATION_ERROR
       \<and> fst (driver_location e rid blat (Some (- 181)) m) = Err VALIDATION_ERROR"
proof -
  have 1: "fst (driver_location e rid blat blng m) = Ok \<longleftrightarrow>
            (\<exists>x y. blat = Some x \<and> blng = Some y
               \<and> - 90 \<le> x \<and> x \<le> 90 \<and> - 180 \<le> y \<and> y \<le> 180)"
    using assms
    by (auto simp: driver_location_def Let_def driverLocSchema_def split: option.splits if_splits)
  have 2: "fst (driver_location e rid blat blng m) \<noteq> Ok \<longrightarrow>
            driver_location e rid blat blng m = (Err VALIDATION_ERROR, m, [])"
    using assms
    by (auto simp: driver_location_def Let_def split: option.splits)
  have 3: "\<forall>x y. blat = Some x \<and> blng = Some y
               \<and> - 90 \<le> x \<and> x \<le> 90 \<and> - 180 \<le> y \<and> y \<le> 180 \<longrightarrow>
            fst (snd (driver_location e rid blat blng m)) rid
              = Some (r\<lparr>driverLat := Some x, driverLng := Some y\<rparr>)"
    using assms
    by (auto simp: driver_location_def Let_def driverLocSchema_def store_ride_def)
  have 4: "fst (driver_location e rid (Some (- 90)) (Some 180) m) = Ok"
    using assms by (simp add: driver_location_def Let_def driverLocSchema_def)
  have 5: "fst (driver_location e rid (Some 91) blng m) = Err VALIDATION_ERROR"
    using assms by (simp add: driver_location_def Let_def driverLocSchema_def split: option.splits)
  have 6: "fst (driver_location e rid blat (Some (- 181)) m) = Err VALIDATION_ERROR"
    using assms by (simp add: driver_location_def Let_def driverLocSchema_def split: option.splits)
  from 1 2 3 4 5 6 show ?thesis by blast
qed

theorem driver_location_succeeds_iff_in_range_witness:
  "rides_done ''ride_1'' = Some (ride0\<lparr>status := Completed\<rparr>)
   \<and> fst (driver_location env0 ''ride_1'' (Some (- 90)) (Some 180) rides_done) = Ok
   \<and> fst (snd (driver_location env0 ''ride_1'' (Some (- 90)) (Some 180) rides_done)) ''ride_1''
       = Some (ride0\<lparr>status := Completed, driverLat := Some (- 90), driverLng := Some 180\<rparr>)
   \<and> driver_location env0 ''ride_1'' (Some 91) (Some 0) rides_done
       = (Err VALIDATION_ERROR, rides_done, [])"
proof -
  note t = driver_location_succeeds_iff_in_range
             [where m = rides_done and rid = "''ride_1''" and e = env0, OF rides_done_lookup]
  from t [of "Some (- 90)" "Some 180"] t [of "Some 91" "Some 0"] rides_done_lookup
  show ?thesis by simp
qed

section \<open>Idempotency keys\<close>

lemma idempotency_keys_simps [simp]:
  "idempotency_keys [] = []"
  "idempotency_keys (f # fx) = keys_of f @ idempotency_keys fx"
  "idempotency_keys (xs @ ys) = idempotency_keys xs @ idempotency_keys ys"
  "idempotency_keys (persist e rid u) = []"
  by (simp_all add: idempotency_keys_def persist_def)

lemma rides_paid_lookup: "rides_paid ''ride_1'' = Some ride_paid"
  by (simp add: rides_paid_def)

text \<open>
  C6, as the claim states it, fails: for the ride \<^verbatim>\<open>ride_1\<close> the key of the
  authorization is \<^verbatim>\<open>ride_accept_ride_1\<close>, not \<^verbatim>\<open>accept:ride_1\<close>, and the key of
  the capture is \<^verbatim>\<open>ride_complete_ride_1\<close>, not \<^verbatim>\<open>complete:ride_1\<close>.
\<close>

theorem idempotency_key_format_counterexample:
  "idempotency_keys (snd (snd (accept env0 (Some ''pi_1'') ''ride_1'' (Some ''drv_7'') rides0)))
     = [''ride_accept_ride_1'']
   \<and> idempotency_keys (snd (snd (accept env0 (Some ''pi_1'') ''ride_1'' (Some ''drv_7'') rides0)))
     \<noteq> [''accept:ride_1'']
   \<and> idempotency_keys (snd (snd (complete_ride env0 ''ride_1'' rides_paid)))
     = [''ride_complete_ride_1'']
   \<and> idempotency_keys (snd (snd (complete_ride env0 ''ride_1'' rides_paid)))
     \<noteq> [''complete:ride_1'']"
  by (simp add: accept_def create_payment_intent_def complete_ride_def acceptSchema_def Let_def
        rides0_def rides_paid_def ride_paid_def ride0_def env0_def truthy_str_def)

text \<open>
  C6, amended. The authorization requested by accept carries the idempotency key
  \<^verbatim>\<open>ride_accept_\<close> followed by the ride's id, and the capture issued by complete carries
  \<^verbatim>\<open>ride_complete_\<close> followed by the ride's id. Accept requests an authorization
  exactly when it succeeds, the processor key is configured, the quote is truthy and the
  ride has no payment intent yet; complete issues a capture exactly when it succeeds, the
  key is configured and the ride has a payment intent. No other key is ever used.
\<close>

theorem idempotency_key_format:
  assumes "m rid = Some r"
  shows "idempotency_keys (snd (snd (accept e answer rid body m)))
           = (if status r = Requested \<and> (\<exists>d. body = Some d \<and> d \<noteq> [])
                 \<and> truthy_str (STRIPE_SECRET_KEY e)
                 \<and> (\<exists>q. quoteUsd r = Some q \<and> q \<noteq> 0)
                 \<and> \<not> truthy_str (paymentIntentId r)
              then [''ride_accept_'' @ ride_id r] else [])
       \<and> idempotency_keys (snd (snd (complete_ride e rid m)))
           = (if (status r = InProgress \<or> status r = Accepted)
                 \<and> truthy_str (STRIPE_SECRET_KEY e) \<and> truthy_str (paymentIntentId r)
              then [''ride_complete_'' @ ride_id r] else [])"
proof -
  have a: "idempotency_keys (snd (snd (accept e answer rid body m)))
           = (if status r = Requested \<and> (\<exists>d. body = Some d \<and> d \<noteq> [])
                 \<and> truthy_str (STRIPE_SECRET_KEY e)
                 \<and> (\<exists>q. quoteUsd r = Some q \<and> q \<noteq> 0)
                 \<and> \<not> truthy_str (paymentIntentId r)
              then [''ride_accept_'' @ ride_id r] else [])"
    using assms
    by (auto simp: accept_def create_payment_intent_def acceptSchema_eq
          split: option.splits prod.splits if_splits)
  have b: "idempotency_keys (snd (snd (complete_ride e rid m)))
           = (if (status r = InProgress \<or> status r = Accepted)
                 \<and> truthy_str (STRIPE_SECRET_KEY e) \<and> truthy_str (paymentIntentId r)
              then [''ride_complete_'' @ ride_id r] else [])"
    using assms
    by (auto simp: complete_ride_def Let_def truthy_str_def split: option.splits)
  from a b show ?thesis by simp
qed

theorem idempotency_key_format_witness:
  "rides0 ''ride_1'' = Some ride0 \<and> rides_paid ''ride_1'' = Some ride_paid
   \<and> idempotency_keys (snd (snd (accept env0 None ''ride_1'' (Some ''drv_7'') rides0)))
       = [''ride_accept_'' @ ride_id ride0]
   \<and> idempotency_keys (snd (snd (complete_ride env0 ''ride_1'' rides_paid)))
       = [''ride_complete_'' @ ride_id ride_paid]"
proof -
  have c: "status ride0 = Requested" "quoteUsd ride0 = Some 12" "paymentIntentId ride0 = None"
    "status ride_paid = InProgress" "paymentIntentId ride_paid = Some ''pi_1''"
    "STRIPE_SECRET_KEY env0 = Some ''sk_test_1''"
    by (simp_all add: ride0_def ride_paid_def env0_def)
  from idempotency_key_format
         [where m = rides0 and rid = "''ride_1''" and e = env0 and answer = None
            and body = "Some ''drv_7''", OF rides0_lookup]
       idempotency_key_format
         [where m = rides_paid and rid = "''ride_1''" and e = env0, OF rides_paid_lookup]
       c rides0_lookup rides_paid_lookup
  show ?thesis by (simp add: truthy_str_def)
qed

section \<open>Webhook deliveries\<close>

lemma verify0_evt:
  "verify0 body sig1 (or_default (STRIPE_WEBHOOK_SECRET env0) ''whsec_'')
     = Some \<lparr>event_id = body, event_type = ''payment_intent.succeeded''\<rparr>"
  by (simp add: verify0_def sig1_def env0_def or_default_def)

lemma sig1_nonempty: "sig1 \<noteq> []"
  by (simp add: sig1_def)

lemma dedup0_bounded: "mem_bounded dedup0"
  by (simp add: dedup0_def mem_bounded_def bounded_set_def)

text \<open>
  C9. A delivery whose signature header is missing or empty, or whose signature check
  throws, is answered with a 400 error; the deduplication state is unchanged and no
  lookup or mark was issued.
\<close>

theorem webhook_bad_signature_rejected:
  assumes "sig = None \<or> sig = Some []
           \<or> (\<exists>s. sig = Some s
                \<and> constructEvent body s (or_default (STRIPE_WEBHOOK_SECRET e) ''whsec_'') = None)"
  shows "\<exists>msg. webhook constructEvent e f sig body st = (BadRequest msg, st, [])"
  using assms by (auto simp: webhook_def split: option.splits)

theorem webhook_bad_signature_rejected_witness:
  "verify0 ''evt_1'' ''forged'' (or_default (STRIPE_WEBHOOK_SECRET env0) ''whsec_'') = None
   \<and> webhook verify0 env0 no_faults None ''evt_1'' dedup0 = (BadRequest ''Missing signature'', dedup0, [])
   \<and> webhook verify0 env0 no_faults (Some []) ''evt_1'' dedup0
       = (BadRequest ''Missing signature'', dedup0, [])
   \<and> webhook verify0 env0 no_faults (Some ''forged'') ''evt_1'' dedup0
       = (BadRequest ''Webhook Error'', dedup0, [])"
proof -
  have bad: "verify0 ''evt_1'' ''forged'' (or_default (STRIPE_WEBHOOK_SECRET env0) ''whsec_'') = None"
    by (simp add: verify0_def)
  have msg: "webhook verify0 env0 no_faults None ''evt_1'' dedup0 = (BadRequest x, dedup0, [])
             \<Longrightarrow> x = ''Missing signature''" for x
    by (simp add: webhook_def)
  have msg2: "webhook verify0 env0 no_faults (Some []) ''evt_1'' dedup0 = (BadRequest x, dedup0, [])
             \<Longrightarrow> x = ''Missing signature''" for x
    by (simp add: webhook_def)
  have msg3: "webhook verify0 env0 no_faults (Some ''forged'') ''evt_1'' dedup0 = (BadRequest x, dedup0, [])
             \<Longrightarrow> x = ''Webhook Error''" for x
    by (simp add: webhook_def bad)
  from webhook_bad_signature_rejected
         [where constructEvent = verify0 and sig = None and body = "''evt_1''" and e = env0
            and f = no_faults and st = dedup0]
       webhook_bad_signature_rejected
         [where constructEvent = verify0 and sig = "Some []" and body = "''evt_1''" and e = env0
            and f = no_faults and st = dedup0]
       webhook_bad_signature_rejected
         [where constructEvent = verify0 and sig = "Some ''forged''" and body = "''evt_1''"
            and e = env0 and f = no_faults and st = dedup0]
       bad
  show ?thesis by (auto dest: msg msg2 msg3)
qed

subsection \<open>The in-memory set\<close>

lemma evict_keeps_new: "i \<notin> set xs \<Longrightarrow> i \<in> set (evict (xs @ [i]))"
  by (cases xs) (auto simp: evict_def)

lemma evict_bounded_id: "bounded_set ys \<Longrightarrow> evict ys = ys"
  by (auto simp: bounded_set_def evict_def)

lemma bounded_set_mark:
  assumes "bounded_set xs"
  shows "bounded_set (evict (set_add i xs))"
proof (cases "i \<in> set xs")
  case True
  then show ?thesis using assms by (simp add: set_add_def evict_bounded_id)
next
  case new: False
  show ?thesis
  proof (cases "length (xs @ [i]) \<le> 1000")
    case True
    then have "bounded_set (xs @ [i])" by (simp add: bounded_set_def)
    then show ?thesis using new by (simp add: set_add_def evict_bounded_id)
  next
    case long: False
    then obtain y ys where xs: "xs = y # ys" by (cases xs) auto
    show ?thesis
    proof (cases "y = []")
      case True
      then have "bounded_set (xs @ [i])" using xs by (simp add: bounded_set_def)
      then show ?thesis using new by (simp add: set_add_def evict_bounded_id)
    next
      case False
      then have len: "length xs \<le> 1000" using assms xs by (simp add: bounded_set_def)
      have "length ys < 1000" using len xs by simp
      then have "length (removeAll y ys) < 1000"
        by (rule le_less_trans [OF length_removeAll_less_eq])
      then have "length (removeAll y ys @ [i]) \<le> 1000" by simp
      moreover have "evict (set_add i xs) = removeAll y ys @ [i]"
        using new xs False long by (auto simp: evict_def set_add_def)
      ultimately show ?thesis by (simp only: bounded_set_def) simp
    qed
  qed
qed

lemma mark_keeps:
  assumes "bounded_set xs"
  shows "i \<in> set (evict (set_add i xs))"
proof (cases "i \<in> set xs")
  case True
  then show ?thesis using assms by (simp add: set_add_def evict_bounded_id)
next
  case False
  then show ?thesis by (simp add: set_add_def evict_keeps_new)
qed

lemma evict_set_add_idem:
  assumes "bounded_set xs"
  shows "evict (set_add i (evict (set_add i xs))) = evict (set_add i xs)"
proof -
  have "set_add i (evict (set_add i xs)) = evict (set_add i xs)"
    using mark_keeps [OF assms, of i] by (simp add: set_add_def)
  then show ?thesis
    using bounded_set_mark [OF assms, of i] by (simp add: evict_bounded_id)
qed

lemma evict_forgets_oldest:
  "1000 \<le> length (y # ys) \<Longrightarrow> y \<noteq> [] \<Longrightarrow> i \<notin> set (y # ys) \<Longrightarrow>
     y \<notin> set (evict (set_add i (y # ys)))"
  by (auto simp: evict_def set_add_def)

subsection \<open>Lookup and mark\<close>

lemma isEventProcessed_fresh:
  "\<not> recorded i st \<Longrightarrow> fst (isEventProcessed e f i st) = False"
  by (simp add: isEventProcessed_def recorded_def)

lemma isEventProcessed_log_no_mark:
  "filter is_mark (snd (isEventProcessed e f i st)) = []"
  by (simp add: isEventProcessed_def)

lemma markEventProcessed_fresh_recorded:
  "i \<notin> set (processedStripeEvents st) \<Longrightarrow> \<not> (supabaseReady e \<and> insert_result f = Insert_error) \<Longrightarrow>
     recorded i (fst (markEventProcessed e f i ty st))"
  by (auto simp: markEventProcessed_def recorded_def set_add_def evict_keeps_new)

lemma markEventProcessed_insert_error:
  "supabaseReady e \<Longrightarrow> insert_result f = Insert_error \<Longrightarrow>
     markEventProcessed e f i ty st = (st, [StoreInsert i])"
  by (simp add: markEventProcessed_def)

lemma markEventProcessed_bounded:
  "mem_bounded st \<Longrightarrow> mem_bounded (fst (markEventProcessed e f i ty st))"
  by (simp add: markEventProcessed_def mem_bounded_def bounded_set_mark)

lemma markEventProcessed_idem:
  "mem_bounded st \<Longrightarrow>
     fst (markEventProcessed e f i ty (fst (markEventProcessed e f i ty st)))
       = fst (markEventProcessed e f i ty st)"
  by (simp add: markEventProcessed_def mem_bounded_def evict_set_add_idem)

lemma webhook_bounded:
  assumes "mem_bounded st"
  shows "mem_bounded (fst (snd (webhook constructEvent e f sig body st)))"
proof -
  have "mem_bounded st1" if "markEventProcessed e f i ty st = (st1, lg)" for i ty st1 lg
    using markEventProcessed_bounded [OF assms, of e f i ty] that by simp
  then show ?thesis
    using assms by (auto simp: webhook_def split: option.splits prod.splits bool.splits)
qed

lemma webhook_verified:
  assumes "constructEvent body s (or_default (STRIPE_WEBHOOK_SECRET e) ''whsec_'') = Some ev"
    and "s \<noteq> []"
  shows "webhook constructEvent e f (Some s) body st =
           (if fst (isEventProcessed e f (event_id ev) st)
            then (Duplicate, st, snd (isEventProcessed e f (event_id ev) st))
            else (Received (event_type ev),
                  fst (markEventProcessed e f (event_id ev) (event_type ev) st),
                  snd (isEventProcessed e f (event_id ev) st)
                    @ snd (markEventProcessed e f (event_id ev) (event_type ev) st)))"
  using assms by (auto simp: webhook_def split: prod.splits bool.splits)

lemma after_first_eq: "after_first = \<lparr>stripe_events = {''evt_1''}, processedStripeEvents = []\<rparr>"
  by (simp add: after_first_def webhook_def verify0_def sig1_def env_store_def env0_def
        or_default_def isEventProcessed_def markEventProcessed_def no_faults_def dedup0_def)

text \<open>
  C4, as the claim states it, fails when the store is reachable for the first delivery
  and not for the second: the first delivery records \<^verbatim>\<open>evt_1\<close> in the store only, the
  store lookup of the second delivery fails and falls back to the in-memory set, which
  does not hold the id, so the second delivery is acknowledged as received, not as a
  duplicate, and marks the event again.
\<close>

theorem webhook_store_outage_counterexample:
  "fst (webhook verify0 env_store no_faults (Some sig1) ''evt_1'' dedup0)
     = Received ''payment_intent.succeeded''
   \<and> recorded ''evt_1'' after_first
   \<and> fst (webhook verify0 env_store store_down (Some sig1) ''evt_1'' after_first)
       = Received ''payment_intent.succeeded''
   \<and> fst (webhook verify0 env_store store_down (Some sig1) ''evt_1'' after_first) \<noteq> Duplicate
   \<and> filter is_mark (snd (snd (webhook verify0 env_store store_down (Some sig1) ''evt_1'' after_first)))
       = [StoreInsert ''evt_1'', MemoryAdd ''evt_1'']
   \<and> fst (snd (webhook verify0 env_store store_down (Some sig1) ''evt_1'' after_first)) \<noteq> after_first"
  by (simp add: after_first_eq recorded_def)
     (simp add: webhook_def verify0_def sig1_def env_store_def env0_def
        or_default_def isEventProcessed_def markEventProcessed_def no_faults_def store_down_def
        dedup0_def set_add_def evict_def)

section \<open>Ride lifecycle over sequences of requests\<close>

lemma creates_simps [simp]:
  "creates j [] = 0"
  "creates j (f # fx) = (if is_create j f then 1 else 0) + creates j fx"
  "creates j (xs @ ys) = creates j xs + creates j ys"
  "creates j (persist e rid u) = 0"
  by (simp_all add: creates_def persist_def)

lemma store_ride_wf:
  "wf_rides m \<Longrightarrow> m t = Some r \<Longrightarrow> ride_id r1 = ride_id r \<Longrightarrow> store_ride t r1 m = m(t \<mapsto> r1)"
  by (simp add: store_ride_def wf_rides_def)

lemma wf_rides_update:
  "wf_rides m \<Longrightarrow> m t = Some r \<Longrightarrow> ride_id r1 = ride_id r \<Longrightarrow> wf_rides (m(t \<mapsto> r1))"
  by (simp add: wf_rides_def)

lemma create_payment_intent_fields [simp]:
  "ride_id (fst (create_payment_intent e answer r)) = ride_id r"
  "status (fst (create_payment_intent e answer r)) = status r"
  "driverId (fst (create_payment_intent e answer r)) = driverId r"
  by (simp_all add: create_payment_intent_def split: option.splits)

lemma create_payment_intent_failure [simp]: "fst (create_payment_intent e None r) = r"
  by (simp add: create_payment_intent_def split: option.splits)

lemma create_payment_intent_guard:
  "paymentIntentId (fst (create_payment_intent e answer r)) \<noteq> paymentIntentId r
   \<or> 0 < creates k (snd (create_payment_intent e answer r))
   \<Longrightarrow> \<not> truthy_str (paymentIntentId r)"
  by (auto simp: create_payment_intent_def split: option.splits if_splits)

lemma create_payment_intent_creates:
  "creates k (snd (create_payment_intent e answer r)) \<le> 1"
  "k \<noteq> ride_id r \<Longrightarrow> creates k (snd (create_payment_intent e answer r)) = 0"
  by (auto simp: create_payment_intent_def split: option.splits)

lemma accept_success:
  assumes "m t = Some r" and "status r = Requested" and "acceptSchema body = Some d"
    and "r2 = fst (create_payment_intent e answer (r\<lparr>status := Accepted, driverId := Some d\<rparr>))"
  shows "accept e answer t body m =
           (RideJson r2, store_ride t r2 m,
            snd (create_payment_intent e answer (r\<lparr>status := Accepted, driverId := Some d\<rparr>))
              @ [Broadcast (ride_id r2) (RideUpdated r2)]
              @ persist e (ride_id r2) (UpdateAccept (status r2) (driverId r2) (paymentIntentId r2)))"
  using assms by (simp add: accept_def case_prod_beta)

lemma accept_failure:
  assumes "m t = None \<or> (\<exists>r. m t = Some r \<and> (status r \<noteq> Requested \<or> acceptSchema body = None))"
  shows "fst (snd (accept e answer t body m)) = m \<and> snd (snd (accept e answer t body m)) = []"
  using assms by (auto simp: accept_def)

lemma accept_shape:
  assumes "wf_rides m"
  shows "step_shape rid m (fst (snd (accept e answer rid body m))) (snd (snd (accept e answer rid body m)))"
proof (cases "\<exists>r d. m rid = Some r \<and> status r = Requested \<and> acceptSchema body = Some d")
  case False
  then have "m rid = None \<or> (\<exists>r. m rid = Some r \<and> (status r \<noteq> Requested \<or> acceptSchema body = None))"
    by (cases "m rid") auto
  from accept_failure [where m = m and t = rid and body = body, OF this]
  show ?thesis by (simp add: step_shape_def)
next
  case True
  then obtain r d where r: "m rid = Some r" and st: "status r = Requested"
    and d: "acceptSchema body = Some d" by blast
  let ?r1 = "r\<lparr>status := Accepted, driverId := Some d\<rparr>"
  let ?r2 = "fst (create_payment_intent e answer ?r1)"
  have id: "ride_id r = rid" using assms r by (simp add: wf_rides_def)
  have ch: "ride_change r ?r2"
    using st create_payment_intent_guard [of e answer ?r1 rid]
    by (auto simp: ride_change_def edges_def)
  have m1: "store_ride rid ?r2 m = m(rid \<mapsto> ?r2)"
    using store_ride_wf [OF assms r, of ?r2] by simp
  note acc = accept_success [where m = m and t = rid and e = e and answer = answer,
                 OF r st d refl]
  have fx: "creates j (snd (snd (accept e answer rid body m)))
              = creates j (snd (create_payment_intent e answer ?r1))" for j
    by (simp add: acc)
  have res: "fst (snd (accept e answer rid body m)) = m(rid \<mapsto> ?r2)"
    by (simp add: acc m1)
  have one: "creates rid (snd (create_payment_intent e answer ?r1)) \<le> 1"
    by (rule create_payment_intent_creates(1))
  have none: "creates j (snd (create_payment_intent e answer ?r1)) = 0" if "j \<noteq> rid" for j
    using create_payment_intent_creates(2) [of j ?r1 e answer] that id by simp
  show ?thesis
    unfolding step_shape_def fx res
    using r ch st one none by auto
qed

lemma start_shape:
  assumes "wf_rides m"
  shows "step_shape rid m (fst (snd (start e rid m))) (snd (snd (start e rid m)))"
proof (cases "m rid")
  case None
  then show ?thesis by (simp add: start_def step_shape_def)
next
  case (Some r)
  then show ?thesis
    using assms
    by (auto simp: start_def step_shape_def Let_def store_ride_wf ride_change_def edges_def)
qed

lemma complete_shape:
  assumes "wf_rides m"
  shows "step_shape rid m (fst (snd (complete_ride e rid m))) (snd (snd (complete_ride e rid m)))"
proof (cases "m rid")
  case None
  then show ?thesis by (simp add: complete_ride_def step_shape_def)
next
  case (Some r)
  then show ?thesis
    using assms
    by (auto simp: complete_ride_def step_shape_def Let_def store_ride_wf ride_change_def edges_def
          split: option.splits)
qed

lemma cancel_shape:
  assumes "wf_rides m"
  shows "step_shape rid m (fst (snd (cancel e rid m))) (snd (snd (cancel e rid m)))"
proof (cases "m rid")
  case None
  then show ?thesis by (simp add: cancel_def step_shape_def)
next
  case (Some r)
  then show ?thesis
    using assms
    by (auto simp: cancel_def step_shape_def Let_def store_ride_wf ride_change_def edges_def)
qed

lemma driver_location_shape:
  assumes "wf_rides m"
  shows "step_shape rid m (fst (snd (driver_location e rid blat blng m)))
           (snd (snd (driver_location e rid blat blng m)))"
proof (cases "m rid")
  case None
  then show ?thesis by (simp add: driver_location_def step_shape_def)
next
  case (Some r)
  then show ?thesis
    using assms
    by (auto simp: driver_location_def step_shape_def Let_def store_ride_wf ride_change_def
          split: option.splits)
qed

lemma serve_shape:
  "wf_rides m \<Longrightarrow> step_shape (target q) m (fst (snd (serve e q m))) (snd (snd (serve e q m)))"
  by (cases q)
     (simp_all add: accept_shape start_shape complete_shape cancel_shape driver_location_shape)

lemma ride_change_refl: "ride_change r r"
  by (simp add: ride_change_def)

lemma serve_wf:
  assumes "wf_rides m"
  shows "wf_rides (fst (snd (serve e q m)))"
  using serve_shape [OF assms, of q e] assms
  by (auto simp: step_shape_def ride_change_def intro: wf_rides_update)

lemma serve_at:
  assumes "wf_rides m" and "m k = Some r"
  shows "\<exists>r1. fst (snd (serve e q m)) k = Some r1 \<and> ride_change r r1
           \<and> creates k (snd (snd (serve e q m))) \<le> 1
           \<and> (creates k (snd (snd (serve e q m))) = 1 \<longrightarrow>
                 status r = Requested \<and> status r1 = Accepted)"
proof (cases "k = target q")
  case True
  then show ?thesis
    using serve_shape [OF assms(1), of q e] assms(2)
    by (auto simp: step_shape_def ride_change_refl)
next
  case False
  then show ?thesis
    using serve_shape [OF assms(1), of q e] assms(2)
    by (auto simp: step_shape_def ride_change_refl)
qed

lemma run_Cons_fst: "fst (run e (q # qs) m) = fst (run e qs (fst (snd (serve e q m))))"
  by (simp split: prod.splits)

lemma run_Cons_snd:
  "snd (run e (q # qs) m) = snd (snd (serve e q m)) @ snd (run e qs (fst (snd (serve e q m))))"
  by (simp split: prod.splits)

lemma edges_leave_requested: "(s, s') \<in> edges \<Longrightarrow> s' \<noteq> Requested"
  by (auto simp: edges_def)

lemma edges_progress: "(s, s') \<in> edges \<Longrightarrow> progress s < progress s'"
  by (auto simp: edges_def)

lemma edges_star_progress:
  "(s, s') \<in> edges\<^sup>* \<Longrightarrow> progress s \<le> progress s' \<and> (s' \<noteq> s \<longrightarrow> progress s < progress s')"
proof (induction rule: rtrancl_induct)
  case base
  then show ?case by simp
next
  case (step y z)
  then show ?case using edges_progress [of y z] by auto
qed


lemma ride_change_star: "ride_change r r1 \<Longrightarrow> (status r, status r1) \<in> edges\<^sup>*"
  by (auto simp: ride_change_def)

lemma ride_change_keeps_intent:
  "ride_change r r1 \<Longrightarrow> paymentIntentId r = Some p \<Longrightarrow> status r \<noteq> Requested \<or> p \<noteq> [] \<Longrightarrow>
     paymentIntentId r1 = Some p \<and> (status r1 \<noteq> Requested \<or> p \<noteq> [])"
  by (auto simp: ride_change_def truthy_str_def dest: edges_leave_requested)

lemma run_at:
  assumes "wf_rides m" and "m k = Some r"
  shows "\<exists>r2. fst (run e qs m) k = Some r2 \<and> (status r, status r2) \<in> edges\<^sup>*
           \<and> (\<forall>p. paymentIntentId r = Some p \<and> (status r \<noteq> Requested \<or> p \<noteq> []) \<longrightarrow>
                  paymentIntentId r2 = Some p)"
  using assms
proof (induction qs arbitrary: m r)
  case Nil
  then show ?case by simp
next
  case (Cons q qs)
  from serve_at [OF Cons.prems, of e q] obtain r1
    where r1: "fst (snd (serve e q m)) k = Some r1" and ch: "ride_change r r1" by blast
  from Cons.IH [OF serve_wf [OF Cons.prems(1)] r1] obtain r2
    where r2: "fst (run e qs (fst (snd (serve e q m)))) k = Some r2"
      and st: "(status r1, status r2) \<in> edges\<^sup>*"
      and pi: "\<forall>p. paymentIntentId r1 = Some p \<and> (status r1 \<noteq> Requested \<or> p \<noteq> []) \<longrightarrow>
                  paymentIntentId r2 = Some p"
    by blast
  have "(status r, status r2) \<in> edges\<^sup>*"
    using ride_change_star [OF ch] st by (rule rtrancl_trans)
  moreover have "\<forall>p. paymentIntentId r = Some p \<and> (status r \<noteq> Requested \<or> p \<noteq> []) \<longrightarrow>
                  paymentIntentId r2 = Some p"
    using ride_change_keeps_intent [OF ch] pi by blast
  ultimately show ?case using r2 by (simp add: run_Cons_fst del: run.simps)
qed

lemma wf_ridesD: "wf_rides m \<Longrightarrow> m t = Some r \<Longrightarrow> ride_id r = t"
  by (simp add: wf_rides_def)





lemma accept_ok:
  assumes "m k = Some r" and "ride_id r = k" and "status r = Requested" and "d \<noteq> []"
  shows "fst (snd (accept e answer k (Some d) m))
           = m(k \<mapsto> fst (create_payment_intent e answer (r\<lparr>status := Accepted, driverId := Some d\<rparr>)))"
  using assms
  by (simp add: accept_success [where m = m and t = k and r = r and d = d, OF _ _ _ refl]
        acceptSchema_eq store_ride_def)

lemma start_ok:
  assumes "m k = Some r" and "ride_id r = k" and "status r = Accepted"
  shows "fst (snd (start e k m)) = m(k \<mapsto> r\<lparr>status := InProgress\<rparr>)"
  using assms by (simp add: start_def Let_def store_ride_def)

lemma complete_ok:
  assumes "m k = Some r" and "ride_id r = k" and "status r = InProgress"
  shows "fst (snd (complete_ride e k m)) = m(k \<mapsto> r\<lparr>status := Completed\<rparr>)"
  using assms by (simp add: complete_ride_def Let_def store_ride_def)

lemma lifecycle_reachable:
  assumes "wf_rides m" and "m k = Some r" and "status r = Requested" and "d \<noteq> []"
  shows "\<exists>r1 r2 r3.
           fst (run e [AcceptReq k (Some d) answer] m) k = Some r1 \<and> status r1 = Accepted
         \<and> fst (run e [AcceptReq k (Some d) answer, StartReq k] m) k = Some r2
         \<and> status r2 = InProgress
         \<and> fst (run e [AcceptReq k (Some d) answer, StartReq k, CompleteReq k] m) k = Some r3
         \<and> status r3 = Completed"
proof -
  note id = wf_ridesD [OF assms(1,2)]
  define r1 where "r1 = fst (create_payment_intent e answer (r\<lparr>status := Accepted, driverId := Some d\<rparr>))"
  have m1: "fst (snd (accept e answer k (Some d) m)) = m(k \<mapsto> r1)"
    unfolding r1_def using assms(2) id assms(3,4) by (rule accept_ok)
  have s1: "status r1 = Accepted" and i1: "ride_id r1 = k"
    using id by (simp_all add: r1_def)
  let ?r2 = "r1\<lparr>status := InProgress\<rparr>"
  let ?r3 = "r1\<lparr>status := Completed\<rparr>"
  have m2: "fst (snd (start e k (m(k \<mapsto> r1)))) = m(k \<mapsto> ?r2)"
    using start_ok [of "m(k \<mapsto> r1)" k r1 e] s1 i1 by simp
  have m3: "fst (snd (complete_ride e k (m(k \<mapsto> ?r2)))) = m(k \<mapsto> ?r3)"
    using complete_ok [of "m(k \<mapsto> ?r2)" k ?r2 e] i1 by simp
  have a: "fst (run e [AcceptReq k (Some d) answer] m) k = Some r1"
    by (simp add: run_Cons_fst m1 del: run.simps) simp
  have b: "fst (run e [AcceptReq k (Some d) answer, StartReq k] m) k = Some ?r2"
    by (simp add: run_Cons_fst m1 m2 del: run.simps) simp
  have c: "fst (run e [AcceptReq k (Some d) answer, StartReq k, CompleteReq k] m) k = Some ?r3"
    by (simp add: run_Cons_fst m1 m2 m3 del: run.simps) simp
  from a b c s1 show ?thesis by simp
qed

lemma empty_store_invariants: "wf_rides Map.empty \<and> unpaid_while_requested Map.empty"
  by (simp add: wf_rides_def unpaid_while_requested_def)

lemma create_ride_invariants:
  assumes "wf_rides m" and "unpaid_while_requested m"
  shows "wf_rides (fst (snd (create_ride e stamp body m)))
       \<and> unpaid_while_requested (fst (snd (create_ride e stamp body m)))"
  using assms
  by (auto simp: create_ride_def wf_rides_def unpaid_while_requested_def Let_def
        split: option.splits)

lemma serve_unpaid_while_requested:
  assumes "wf_rides m" and "unpaid_while_requested m"
  shows "unpaid_while_requested (fst (snd (serve e q m)))"
proof -
  have keep: "paymentIntentId r1 = None"
    if "m t = Some r" and "ride_change r r1" and "status r1 = Requested" for t r r1
  proof -
    from that(2,3) have "status r = Requested"
      by (auto simp: ride_change_def dest: edges_leave_requested)
    with that(1) assms(2) have "paymentIntentId r = None"
      by (simp add: unpaid_while_requested_def)
    with that(2,3) show ?thesis by (auto simp: ride_change_def)
  qed
  from serve_shape [OF assms(1), of q e]
  consider "fst (snd (serve e q m)) = m"
    | r r1 where "m (target q) = Some r" and "fst (snd (serve e q m)) = m(target q \<mapsto> r1)"
        and "ride_change r r1"
    by (auto simp: step_shape_def)
  then show ?thesis
  proof cases
    case 1
    then show ?thesis using assms(2) by simp
  next
    case 2
    show ?thesis
      unfolding unpaid_while_requested_def 2(2)
    proof (intro allI impI)
      fix j x
      assume x: "(m(target q \<mapsto> r1)) j = Some x" and req: "status x = Requested"
      show "paymentIntentId x = None"
      proof (cases "j = target q")
        case True
        with x have "x = r1" by simp
        with keep [OF 2(1) 2(3)] req show ?thesis by simp
      next
        case False
        with x have "m j = Some x" by simp
        with assms(2) req show ?thesis by (simp add: unpaid_while_requested_def)
      qed
    qed
  qed
qed

text \<open>
  C1. In a store where every ride is kept under its own id, one request (accept, start,
  complete, cancel or driver location, addressed to any ride) leaves the status of a ride
  as it is or moves it along one of the five edges requested -> accepted,
  accepted -> in_progress, in_progress -> completed, accepted -> completed and
  requested -> cancelled. After any sequence of requests the status is reachable from
  the initial one along these edges, progress has not decreased, and it has strictly
  increased if the status changed, so no status is ever left and entered again. From a
  requested ride, accept with a non-empty driver id, then start, then complete lead
  through accepted and in_progress to completed, whatever the payment processor answers.
\<close>

theorem ride_status_follows_lifecycle:
  assumes "wf_rides m" and "m k = Some r"
  shows "(\<exists>r1. fst (snd (serve e q m)) k = Some r1
            \<and> (status r1 = status r \<or> (status r, status r1) \<in> edges))
       \<and> (\<exists>r2. fst (run e qs m) k = Some r2 \<and> (status r, status r2) \<in> edges\<^sup>*
            \<and> progress (status r) \<le> progress (status r2)
            \<and> (status r2 \<noteq> status r \<longrightarrow> progress (status r) < progress (status r2)))
       \<and> (status r = Requested \<and> d \<noteq> [] \<longrightarrow>
            (\<exists>r1 r2 r3.
               fst (run e [AcceptReq k (Some d) answer] m) k = Some r1 \<and> status r1 = Accepted
             \<and> fst (run e [AcceptReq k (Some d) answer, StartReq k] m) k = Some r2
             \<and> status r2 = InProgress
             \<and> fst (run e [AcceptReq k (Some d) answer, StartReq k, CompleteReq k] m) k = Some r3
             \<and> status r3 = Completed))"
proof -
  from serve_at [OF assms, of e q] obtain r1
    where "fst (snd (serve e q m)) k = Some r1" and "ride_change r r1" by blast
  then have one: "\<exists>r1. fst (snd (serve e q m)) k = Some r1
            \<and> (status r1 = status r \<or> (status r, status r1) \<in> edges)"
    by (auto simp: ride_change_def)
  from run_at [OF assms, of e qs] obtain r2
    where r2: "fst (run e qs m) k = Some r2" and st: "(status r, status r2) \<in> edges\<^sup>*"
    by blast
  from edges_star_progress [OF st] r2 st
  have many: "\<exists>r2. fst (run e qs m) k = Some r2 \<and> (status r, status r2) \<in> edges\<^sup>*
            \<and> progress (status r) \<le> progress (status r2)
            \<and> (status r2 \<noteq> status r \<longrightarrow> progress (status r) < progress (status r2))"
    by blast
  from one many lifecycle_reachable [OF assms, of d e answer] show ?thesis by blast
qed

lemma rides0_wf: "wf_rides rides0"
  by (simp add: wf_rides_def rides0_def ride0_def)


theorem ride_status_follows_lifecycle_witness:
  "wf_rides rides0 \<and> rides0 ''ride_1'' = Some ride0 \<and> status ride0 = Requested \<and> ''drv_7'' \<noteq> []
   \<and> (\<exists>r1. fst (snd (serve env0 (CancelReq ''ride_1'') rides0)) ''ride_1'' = Some r1
          \<and> (status r1 = Requested \<or> (Requested, status r1) \<in> edges))
   \<and> (\<exists>r2. fst (run env0 [CancelReq ''ride_1'', StartReq ''ride_1''] rides0) ''ride_1'' = Some r2
          \<and> (Requested, status r2) \<in> edges\<^sup>* \<and> progress Requested \<le> progress (status r2))
   \<and> (\<exists>r1 r2 r3.
         fst (run env0 [AcceptReq ''ride_1'' (Some ''drv_7'') None] rides0) ''ride_1'' = Some r1
       \<and> status r1 = Accepted
       \<and> fst (run env0 [AcceptReq ''ride_1'' (Some ''drv_7'') None, StartReq ''ride_1''] rides0)
            ''ride_1'' = Some r2
       \<and> status r2 = InProgress
       \<and> fst (run env0 [AcceptReq ''ride_1'' (Some ''drv_7'') None, StartReq ''ride_1'',
                        CompleteReq ''ride_1''] rides0) ''ride_1'' = Some r3
       \<and> status r3 = Completed)"
proof -
  have st: "status ride0 = Requested" by (simp add: ride0_def)
  have d: "''drv_7'' \<noteq> []" by simp
  from ride_status_follows_lifecycle
         [where m = rides0 and k = "''ride_1''" and r = ride0 and e = env0
            and q = "CancelReq ''ride_1''"
            and qs = "[CancelReq ''ride_1'', StartReq ''ride_1'']"
            and d = "''drv_7''" and answer = None,
          OF rides0_wf rides0_lookup]
  show ?thesis
    unfolding st using rides0_wf rides0_lookup st d by blast
qed

section \<open>Broadcast to a ride's room\<close>

lemma send_each_at:
  "distinct room \<Longrightarrow>
     send_each room d s c =
       (if c \<in> set room \<and> \<not> send_throws (s c)
        then (s c)\<lparr>ws_sent := ws_sent (s c) @ [d]\<rparr> else s c)"
proof (induction room arbitrary: s)
  case Nil
  then show ?case by simp
next
  case (Cons x xs)
  then show ?case by (auto simp: send_def)
qed

lemma broadcastToRide_rooms [simp]:
  "rideRooms (broadcastToRide rid p st) = rideRooms st"
  "closeHandlers (broadcastToRide rid p st) = closeHandlers st"
  by (simp_all add: broadcastToRide_def split: option.splits)

lemma broadcastToRide_at:
  assumes "rooms_ok st"
  shows "sockets (broadcastToRide rid p st) c =
           (if (\<exists>room. rideRooms st rid = Some room \<and> c \<in> set room) \<and> \<not> send_throws (sockets st c)
            then (sockets st c)\<lparr>ws_sent := ws_sent (sockets st c) @ [p]\<rparr> else sockets st c)"
proof (cases "rideRooms st rid")
  case None
  then show ?thesis by (simp add: broadcastToRide_def)
next
  case (Some room)
  with assms have "distinct room" by (simp add: rooms_ok_def)
  then show ?thesis using Some by (simp add: broadcastToRide_def send_each_at)
qed

lemma fold_close_handler:
  "fold (close_handler ws) hs rooms r =
     (case rooms r of
        None \<Rightarrow> None
      | Some room \<Rightarrow> Some (if r \<in> set hs then removeAll ws room else room))"
proof (induction hs arbitrary: rooms)
  case Nil
  then show ?case by (simp split: option.splits)
next
  case (Cons h hs)
  then show ?case by (auto simp: close_handler_def split: option.splits)
qed

lemma close_sockets [simp]:
  "sockets (close ws st) = sockets st" "closeHandlers (close ws st) = closeHandlers st"
  by (simp_all add: close_def)

lemma close_leaves_no_room:
  assumes "rooms_ok st" and "rideRooms (close ws st) r = Some room"
  shows "ws \<notin> set room"
proof (cases "rideRooms st r")
  case None
  with assms(2) show ?thesis by (simp add: close_def fold_close_handler)
next
  case (Some old)
  show ?thesis
  proof (cases "r \<in> set (closeHandlers st ws)")
    case True
    with assms(2) Some show ?thesis by (auto simp: close_def fold_close_handler)
  next
    case False
    with assms(1) Some have "ws \<notin> set old" by (auto simp: rooms_ok_def)
    with assms(2) Some False show ?thesis by (auto simp: close_def fold_close_handler)
  qed
qed

lemma rooms_ok_no_rooms: "rooms_ok no_rooms"
  by (simp add: rooms_ok_def no_rooms_def)

lemma rooms_ok_sockets [simp]: "rooms_ok (st\<lparr>sockets := s\<rparr>) = rooms_ok st"
  by (simp add: rooms_ok_def)

lemma rooms_ok_broadcastToRide: "rooms_ok st \<Longrightarrow> rooms_ok (broadcastToRide rid p st)"
  by (simp add: rooms_ok_def)

lemma rooms_ok_addSocketToRide:
  assumes "rooms_ok st"
  shows "rooms_ok (addSocketToRide rid ws st)"
  using assms
  by (auto simp: rooms_ok_def addSocketToRide_def set_add_def split: option.splits if_splits)

lemma rooms_ok_close:
  assumes "rooms_ok st"
  shows "rooms_ok (close ws st)"
  unfolding rooms_ok_def
proof (intro allI impI)
  fix r room
  assume a: "rideRooms (close ws st) r = Some room"
  then obtain old where old: "rideRooms st r = Some old"
    and room: "room = (if r \<in> set (closeHandlers st ws) then removeAll ws old else old)"
    by (auto simp: close_def fold_close_handler split: option.splits)
  from assms old have "distinct old" and "\<forall>c. c \<in> set old \<longrightarrow> r \<in> set (closeHandlers st c)"
    by (auto simp: rooms_ok_def)
  then show "distinct room \<and> (\<forall>c. c \<in> set room \<longrightarrow> r \<in> set (closeHandlers (close ws st) c))"
    using room by (auto simp: distinct_removeAll)
qed

lemma addSocketToRide_member:
  "\<exists>room. rideRooms (addSocketToRide rid ws st) rid = Some room \<and> ws \<in> set room"
  by (simp add: addSocketToRide_def set_add_def)

lemma addSocketToRide_sockets [simp]: "sockets (addSocketToRide rid ws st) = sockets st"
  by (simp add: addSocketToRide_def)

text \<open>
  C8. In a state where every room holds each connection once and every member of a room
  has a close handler for it (the empty state is such a state, and subscribing, closing
  and broadcasting keep it so): a broadcast to a ride id appends the event to what was
  sent on every connection of that ride's room on which \<^verbatim>\<open>send\<close> does not throw, among
  them a connection that has just subscribed to it; it leaves every connection outside
  that room untouched, so a connection subscribed only to another ride receives nothing;
  a connection closed before the broadcast receives nothing; a connection on which
  \<^verbatim>\<open>send\<close> throws is left as it was, while the others are still served and the
  broadcast itself returns normally, without changing the rooms.
\<close>

theorem broadcast_reaches_room_only:
  assumes "rooms_ok st"
  shows "(\<forall>room c. rideRooms st rid = Some room \<and> c \<in> set room \<and> \<not> send_throws (sockets st c) \<longrightarrow>
            sockets (broadcastToRide rid p st) c
              = (sockets st c)\<lparr>ws_sent := ws_sent (sockets st c) @ [p]\<rparr>)
       \<and> (\<forall>c. (\<forall>room. rideRooms st rid = Some room \<longrightarrow> c \<notin> set room) \<longrightarrow>
            sockets (broadcastToRide rid p st) c = sockets st c)
       \<and> (\<forall>c. sockets (broadcastToRide rid p (close c st)) c = sockets st c)
       \<and> (\<forall>c. send_throws (sockets st c) \<longrightarrow> sockets (broadcastToRide rid p st) c = sockets st c)
       \<and> (\<forall>c. \<not> send_throws (sockets st c) \<longrightarrow>
            sockets (broadcastToRide rid p (addSocketToRide rid c st)) c
              = (sockets st c)\<lparr>ws_sent := ws_sent (sockets st c) @ [p]\<rparr>)
       \<and> rideRooms (broadcastToRide rid p st) = rideRooms st"
proof -
  note at = broadcastToRide_at [OF assms, where rid = rid and p = p]
  have closed: "sockets (broadcastToRide rid p (close c st)) c = sockets st c" for c
    using broadcastToRide_at [OF rooms_ok_close [OF assms], where ws1 = c and rid = rid and p = p and c = c]
      close_leaves_no_room [OF assms, where ws = c and r = rid]
    by auto
  have added: "sockets (broadcastToRide rid p (addSocketToRide rid c st)) c
              = (sockets st c)\<lparr>ws_sent := ws_sent (sockets st c) @ [p]\<rparr>"
    if "\<not> send_throws (sockets st c)" for c
    using broadcastToRide_at [OF rooms_ok_addSocketToRide [OF assms],
            where rid1 = rid and ws1 = c and rid = rid and p = p and c = c]
      addSocketToRide_member [of rid c st] that
    by auto
  from at closed added show ?thesis by auto
qed

lemma rooms0_ok: "rooms_ok rooms0"
  unfolding rooms0_def
  by (intro rooms_ok_addSocketToRide) (simp add: rooms_ok_no_rooms)

lemma rooms0_rooms:
  "rideRooms rooms0 ''ride_1'' = Some [1, 2]" "rideRooms rooms0 ''ride_2'' = Some [3]"
  by (simp_all add: rooms0_def addSocketToRide_def set_add_def no_rooms_def)

lemma rooms0_sockets:
  "sockets rooms0 1 = \<lparr>send_throws = True, ws_sent = []\<rparr>"
  "sockets rooms0 2 = \<lparr>send_throws = False, ws_sent = []\<rparr>"
  "sockets rooms0 3 = \<lparr>send_throws = False, ws_sent = []\<rparr>"
  by (simp_all add: rooms0_def no_rooms_def)

theorem broadcast_reaches_room_only_witness:
  "rooms_ok rooms0
   \<and> rideRooms rooms0 ''ride_1'' = Some [1, 2] \<and> rideRooms rooms0 ''ride_2'' = Some [3]
   \<and> send_throws (sockets rooms0 1)
   \<and> sockets (broadcastToRide ''ride_1'' payload0 rooms0) 1 = sockets rooms0 1
   \<and> ws_sent (sockets (broadcastToRide ''ride_1'' payload0 rooms0) 2) = [payload0]
   \<and> sockets (broadcastToRide ''ride_1'' payload0 rooms0) 3 = sockets rooms0 3
   \<and> sockets (broadcastToRide ''ride_1'' payload0 (close 2 rooms0)) 2 = sockets rooms0 2"
proof -
  note t = broadcast_reaches_room_only [OF rooms0_ok, where rid = "''ride_1''" and p = payload0]
  have one: "sockets (broadcastToRide ''ride_1'' payload0 rooms0) 1 = sockets rooms0 1"
    using t rooms0_sockets(1) by simp
  have two: "ws_sent (sockets (broadcastToRide ''ride_1'' payload0 rooms0) 2) = [payload0]"
  proof -
    have "rideRooms rooms0 ''ride_1'' = Some [1, 2] \<and> 2 \<in> set [1, 2::nat]
          \<and> \<not> send_throws (sockets rooms0 2)"
      by (simp add: rooms0_rooms rooms0_sockets)
    with t have "sockets (broadcastToRide ''ride_1'' payload0 rooms0) 2
                   = (sockets rooms0 2)\<lparr>ws_sent := ws_sent (sockets rooms0 2) @ [payload0]\<rparr>"
      by blast
    then show ?thesis by (simp add: rooms0_sockets)
  qed
  have three: "sockets (broadcastToRide ''ride_1'' payload0 rooms0) 3 = sockets rooms0 3"
  proof -
    have "\<forall>room. rideRooms rooms0 ''ride_1'' = Some room \<longrightarrow> 3 \<notin> set room"
      by (simp add: rooms0_rooms)
    with t show ?thesis by blast
  qed
  have gone: "sockets (broadcastToRide ''ride_1'' payload0 (close 2 rooms0)) 2 = sockets rooms0 2"
    using t by blast
  from one two three gone rooms0_ok rooms0_rooms rooms0_sockets(1) show ?thesis by simp
qed

section \<open>Fare estimate\<close>

lemma Math_round_int [simp]: "Math_round (real_of_int n) = n"
  by (simp add: Math_round_def)

lemma Math_round_numeral [simp]: "Math_round (numeral w) = numeral w"
  using Math_round_int [of "numeral w"] by simp

lemma sin_half_squared: "(sin (x / 2))\<^sup>2 = hav x"
  using cos_double_sin [of "x / 2"] by (simp add: hav_def)


lemma haversineKm_infinite:
  "\<not> (finite_number (place_lat a) \<and> finite_number (place_lng a)
       \<and> finite_number (place_lat b) \<and> finite_number (place_lng b))
   \<Longrightarrow> haversineKm a b = None"
  by (auto simp: haversineKm_def split: number.splits)

lemma haversineKm_finite:
  "haversineKm \<lparr>place_lat = Num a1, place_lng = Num a2\<rparr> \<lparr>place_lat = Num b1, place_lng = Num b2\<rparr> = Some k
   \<Longrightarrow> k = great_circle_km (toRad a1) (toRad a2) (toRad b1) (toRad b2)"
  by (auto simp: haversineKm_def Let_def great_circle_km_def sin_half_squared toRad_def
        diff_divide_distrib left_diff_distrib split: if_splits)















section \<open>Payment intent over all operations\<close>


lemma create_ride_creates [simp]: "creates k (snd (snd (create_ride e stamp body m))) = 0"
  by (auto simp: create_ride_def Let_def split: option.splits)

















section \<open>Redelivery of an event\<close>

lemma webhook_state_cases:
  "fst (snd (webhook constructEvent e f sig body st)) = st
   \<or> (\<exists>i ty. fst (snd (webhook constructEvent e f sig body st))
                = fst (markEventProcessed e f i ty st))"
  by (auto simp: webhook_def split: option.splits prod.splits bool.splits) (metis fst_conv)

lemma markEventProcessed_store_mono:
  "j \<in> stripe_events st \<Longrightarrow> j \<in> stripe_events (fst (markEventProcessed e f i ty st))"
  by (simp add: markEventProcessed_def)

lemma markEventProcessed_mem_mono:
  assumes "length (processedStripeEvents st) < 1000" and "j \<in> set (processedStripeEvents st)"
  shows "j \<in> set (processedStripeEvents (fst (markEventProcessed e f i ty st)))
       \<and> length (processedStripeEvents (fst (markEventProcessed e f i ty st)))
           \<le> Suc (length (processedStripeEvents st))"
proof -
  have "length (set_add i (processedStripeEvents st)) \<le> 1000"
    using assms(1) by (simp add: set_add_def)
  then have "evict (set_add i (processedStripeEvents st)) = set_add i (processedStripeEvents st)"
    by (simp add: evict_bounded_id bounded_set_def)
  then show ?thesis using assms(2) by (auto simp: markEventProcessed_def set_add_def)
qed

lemma markEventProcessed_length:
  assumes "length (processedStripeEvents st) < 1000"
  shows "length (processedStripeEvents (fst (markEventProcessed e f i ty st)))
           \<le> Suc (length (processedStripeEvents st))"
proof -
  have "length (set_add i (processedStripeEvents st)) \<le> 1000"
    using assms(1) by (simp add: set_add_def)
  then have "evict (set_add i (processedStripeEvents st)) = set_add i (processedStripeEvents st)"
    by (simp add: evict_bounded_id bounded_set_def)
  then show ?thesis by (auto simp: markEventProcessed_def set_add_def)
qed

lemma deliver_all_store_mono:
  "j \<in> stripe_events st \<Longrightarrow> j \<in> stripe_events (deliver_all constructEvent e ds st)"
proof (induction ds arbitrary: st)
  case Nil
  then show ?case by simp
next
  case (Cons x ds)
  obtain f sig body where x: "x = (f, sig, body)" by (cases x) auto
  have "j \<in> stripe_events (fst (snd (webhook constructEvent e f sig body st)))"
    using webhook_state_cases [of constructEvent e f sig body st] Cons.prems
    by (auto simp: markEventProcessed_store_mono)
  from Cons.IH [OF this] x show ?case by simp
qed

lemma deliver_all_mem_mono:
  assumes "length (processedStripeEvents st) + length ds \<le> 1000"
    and "j \<in> set (processedStripeEvents st)"
  shows "j \<in> set (processedStripeEvents (deliver_all constructEvent e ds st))"
  using assms
proof (induction ds arbitrary: st)
  case Nil
  then show ?case by simp
next
  case (Cons x ds)
  obtain f sig body where x: "x = (f, sig, body)" by (cases x) auto
  let ?st1 = "fst (snd (webhook constructEvent e f sig body st))"
  from Cons.prems(1) have small: "length (processedStripeEvents st) < 1000" by simp
  have "j \<in> set (processedStripeEvents ?st1)
        \<and> length (processedStripeEvents ?st1) \<le> Suc (length (processedStripeEvents st))"
    using webhook_state_cases [of constructEvent e f sig body st] Cons.prems(2)
      markEventProcessed_mem_mono [OF small Cons.prems(2)]
    by auto
  then have "j \<in> set (processedStripeEvents ?st1)"
    and "length (processedStripeEvents ?st1) + length ds \<le> 1000"
    using Cons.prems(1) by simp_all
  from Cons.IH [OF this(2,1)] x show ?case by simp
qed

text \<open>
  C4, amended. Take an event whose id is not recorded yet and two verified deliveries of
  it, which may differ in body and signature header, with any deliveries in between.
  Provided that the store's insert of the first delivery did not answer with an error
  (which \<open>markEventProcessed\<close> would not notice, see
  \<open>markEventProcessed_insert_error\<close>), and that either the first delivery recorded
  the id in the persistent store, the store lookup of the second delivery does not fail
  and the id is not the empty string, or the first delivery recorded the id in the
  in-memory set and the second follows it directly or after fewer deliveries than the
  set has room for (a full set forgets its oldest id, see \<open>evict_forgets_oldest\<close>):
  the first delivery is acknowledged as received and records the id,
  and the second is acknowledged as a duplicate, leaves the state as it is and issues no
  mark. Marking is idempotent: on a state whose in-memory set respects its bound (every
  state reached from the empty one does, see \<open>webhook_bounded\<close>), marking the same
  id twice with the same store behaviour gives the state that marking it once gives.
\<close>

theorem webhook_duplicate_delivery:
  assumes verified1: "constructEvent body1 s1 (or_default (STRIPE_WEBHOOK_SECRET e) ''whsec_'') = Some ev1"
    and nonempty1: "s1 \<noteq> []"
    and verified2: "constructEvent body2 s2 (or_default (STRIPE_WEBHOOK_SECRET e) ''whsec_'') = Some ev2"
    and nonempty2: "s2 \<noteq> []"
    and same: "event_id ev2 = event_id ev1"
    and fresh: "\<not> recorded (event_id ev1) st"
    and noticed: "\<not> (supabaseReady e \<and> insert_result f1 = Insert_error)"
    and later: "if supabaseReady e \<and> insert_result f1 = Inserted
                then \<not> select_fails f2 \<and> event_id ev1 \<noteq> []
                else between = [] \<or> length (processedStripeEvents st) + length between < 1000"
    and bounded: "mem_bounded st"
  shows "(\<exists>st1 log1 log2.
           webhook constructEvent e f1 (Some s1) body1 st = (Received (event_type ev1), st1, log1)
         \<and> recorded (event_id ev1) st1
         \<and> webhook constructEvent e f2 (Some s2) body2 (deliver_all constructEvent e between st1)
             = (Duplicate, deliver_all constructEvent e between st1, log2)
         \<and> filter is_mark log2 = [])
       \<and> (\<forall>f i ty. fst (markEventProcessed e f i ty (fst (markEventProcessed e f i ty st)))
                      = fst (markEventProcessed e f i ty st))"
proof -
  let ?i = "event_id ev1"
  let ?st1 = "fst (markEventProcessed e f1 ?i (event_type ev1) st)"
  let ?log1 = "snd (isEventProcessed e f1 ?i st) @ snd (markEventProcessed e f1 ?i (event_type ev1) st)"
  let ?st2 = "deliver_all constructEvent e between ?st1"
  have first: "webhook constructEvent e f1 (Some s1) body1 st = (Received (event_type ev1), ?st1, ?log1)"
    using webhook_verified [where constructEvent = constructEvent and f = f1 and st = st,
            OF verified1 nonempty1]
      isEventProcessed_fresh [OF fresh, of e f1]
    by simp
  have notin: "?i \<notin> set (processedStripeEvents st)"
    using fresh by (simp add: recorded_def)
  have rec: "recorded ?i ?st1"
    using notin noticed by (rule markEventProcessed_fresh_recorded)
  have dup: "fst (isEventProcessed e f2 ?i ?st2) = True"
  proof (cases "supabaseReady e \<and> insert_result f1 = Inserted")
    case True
    then have "?i \<in> stripe_events ?st1" by (simp add: markEventProcessed_def)
    then have "?i \<in> stripe_events ?st2" by (rule deliver_all_store_mono)
    with True later show ?thesis by (simp add: isEventProcessed_def)
  next
    case False
    have mem1: "?i \<in> set (processedStripeEvents ?st1)"
      using False notin noticed
      by (auto simp: markEventProcessed_def set_add_def evict_keeps_new)
    have "?i \<in> set (processedStripeEvents ?st2)"
    proof (cases "between = []")
      case True
      with mem1 show ?thesis by simp
    next
      case nonempty: False
      with False later have room: "length (processedStripeEvents st) + length between < 1000"
        by (auto split: if_splits)
      then have "length (processedStripeEvents st) < 1000" by simp
      from markEventProcessed_length [OF this, of e f1 ?i "event_type ev1"] room
      have "length (processedStripeEvents ?st1) + length between \<le> 1000" by simp
      then show ?thesis using mem1 by (rule deliver_all_mem_mono)
    qed
    then show ?thesis by (simp add: isEventProcessed_def)
  qed
  have second: "webhook constructEvent e f2 (Some s2) body2 ?st2
                  = (Duplicate, ?st2, snd (isEventProcessed e f2 ?i ?st2))"
    using webhook_verified [where constructEvent = constructEvent and f = f2 and st = ?st2,
            OF verified2 nonempty2] dup same
    by simp
  have idem: "\<forall>f i ty. fst (markEventProcessed e f i ty (fst (markEventProcessed e f i ty st)))
                      = fst (markEventProcessed e f i ty st)"
    using bounded by (simp add: markEventProcessed_idem)
  from first rec second isEventProcessed_log_no_mark [of e f2 ?i ?st2]
  have "\<exists>st1 log1 log2.
           webhook constructEvent e f1 (Some s1) body1 st = (Received (event_type ev1), st1, log1)
         \<and> recorded (event_id ev1) st1
         \<and> webhook constructEvent e f2 (Some s2) body2 (deliver_all constructEvent e between st1)
             = (Duplicate, deliver_all constructEvent e between st1, log2)
         \<and> filter is_mark log2 = []"
    by blast
  with idem show ?thesis by blast
qed

lemma verify_stamped_first:
  "verify_stamped first_try ''t=1,sig:whsec_1'' (or_default (STRIPE_WEBHOOK_SECRET env_store) ''whsec_'')
     = Some event1"
  "verify_stamped first_try ''t=1,sig:whsec_1'' (or_default (STRIPE_WEBHOOK_SECRET env0) ''whsec_'')
     = Some event1"
  by (simp_all add: verify_stamped_def first_try_def env_store_def env0_def or_default_def event1_def)

lemma verify_stamped_retried:
  "verify_stamped retried ''t=2,sig:whsec_1'' (or_default (STRIPE_WEBHOOK_SECRET env_store) ''whsec_'')
     = Some event1"
  "verify_stamped retried ''t=2,sig:whsec_1'' (or_default (STRIPE_WEBHOOK_SECRET env0) ''whsec_'')
     = Some event1"
  by (simp_all add: verify_stamped_def retried_def env_store_def env0_def or_default_def event1_def)

lemma dedup0_fresh: "\<not> recorded (event_id event1) dedup0"
  by (simp add: recorded_def dedup0_def)

theorem webhook_duplicate_delivery_witness:
  "verify_stamped first_try ''t=1,sig:whsec_1'' (or_default (STRIPE_WEBHOOK_SECRET env_store) ''whsec_'')
     = Some event1
   \<and> verify_stamped retried ''t=2,sig:whsec_1'' (or_default (STRIPE_WEBHOOK_SECRET env_store) ''whsec_'')
     = Some event1
   \<and> first_try \<noteq> retried
   \<and> \<not> recorded (event_id event1) dedup0 \<and> mem_bounded dedup0
   \<and> supabaseReady env_store \<and> insert_result no_faults = Inserted \<and> \<not> select_fails no_faults
   \<and> event_id event1 \<noteq> []
   \<and> (\<exists>st1 log1 log2.
         webhook verify_stamped env_store no_faults (Some ''t=1,sig:whsec_1'') first_try dedup0
           = (Received (event_type event1), st1, log1)
       \<and> recorded (event_id event1) st1
       \<and> webhook verify_stamped env_store no_faults (Some ''t=2,sig:whsec_1'') retried
            (deliver_all verify_stamped env_store [other_delivery] st1)
           = (Duplicate, deliver_all verify_stamped env_store [other_delivery] st1, log2)
       \<and> filter is_mark log2 = [])
   \<and> \<not> supabaseReady env0
   \<and> length (processedStripeEvents dedup0) + length [other_delivery] < 1000
   \<and> (\<exists>st1 log1 log2.
         webhook verify_stamped env0 store_down (Some ''t=1,sig:whsec_1'') first_try dedup0
           = (Received (event_type event1), st1, log1)
       \<and> recorded (event_id event1) st1
       \<and> webhook verify_stamped env0 store_down (Some ''t=2,sig:whsec_1'') retried
            (deliver_all verify_stamped env0 [other_delivery] st1)
           = (Duplicate, deliver_all verify_stamped env0 [other_delivery] st1, log2)
       \<and> filter is_mark log2 = [])"
proof -
  have store: "supabaseReady env_store" "insert_result no_faults = Inserted"
    "\<not> select_fails no_faults" "event_id event1 \<noteq> []"
    by (simp_all add: env_store_def no_faults_def event1_def)
  have memory: "\<not> supabaseReady env0"
    "length (processedStripeEvents dedup0) + length [other_delivery] < 1000"
    by (simp_all add: env0_def dedup0_def)
  have differ: "first_try \<noteq> retried" by (simp add: first_try_def retried_def)
  have s: "''t=1,sig:whsec_1'' \<noteq> []" "''t=2,sig:whsec_1'' \<noteq> []" by simp_all
  have a: "\<exists>st1 log1 log2.
         webhook verify_stamped env_store no_faults (Some ''t=1,sig:whsec_1'') first_try dedup0
           = (Received (event_type event1), st1, log1)
       \<and> recorded (event_id event1) st1
       \<and> webhook verify_stamped env_store no_faults (Some ''t=2,sig:whsec_1'') retried
            (deliver_all verify_stamped env_store [other_delivery] st1)
           = (Duplicate, deliver_all verify_stamped env_store [other_delivery] st1, log2)
       \<and> filter is_mark log2 = []"
    using webhook_duplicate_delivery
         [where constructEvent = verify_stamped and e = env_store
            and ?body1.0 = first_try and ?s1.0 = "''t=1,sig:whsec_1''" and ?ev1.0 = event1
            and ?body2.0 = retried and ?s2.0 = "''t=2,sig:whsec_1''" and ?ev2.0 = event1
            and st = dedup0 and ?f1.0 = no_faults and ?f2.0 = no_faults
            and between = "[other_delivery]",
          OF verify_stamped_first(1) s(1) verify_stamped_retried(1) s(2) refl dedup0_fresh]
      store dedup0_bounded
    by simp
  have b: "\<exists>st1 log1 log2.
         webhook verify_stamped env0 store_down (Some ''t=1,sig:whsec_1'') first_try dedup0
           = (Received (event_type event1), st1, log1)
       \<and> recorded (event_id event1) st1
       \<and> webhook verify_stamped env0 store_down (Some ''t=2,sig:whsec_1'') retried
            (deliver_all verify_stamped env0 [other_delivery] st1)
           = (Duplicate, deliver_all verify_stamped env0 [other_delivery] st1, log2)
       \<and> filter is_mark log2 = []"
    using webhook_duplicate_delivery
         [where constructEvent = verify_stamped and e = env0
            and ?body1.0 = first_try and ?s1.0 = "''t=1,sig:whsec_1''" and ?ev1.0 = event1
            and ?body2.0 = retried and ?s2.0 = "''t=2,sig:whsec_1''" and ?ev2.0 = event1
            and st = dedup0 and ?f1.0 = store_down and ?f2.0 = store_down
            and between = "[other_delivery]",
          OF verify_stamped_first(2) s(1) verify_stamped_retried(2) s(2) refl dedup0_fresh]
      memory dedup0_bounded
    by simp
  from a b store memory differ verify_stamped_first(1) verify_stamped_retried(1) dedup0_fresh
    dedup0_bounded
  show ?thesis by blast
qed

end
